theory Spec2Isabelle
  imports Main
begin

section \<open>The itinerary store of App-viaggi\<close>

text \<open>
  The server part of \<^verbatim>\<open>src/src/App.tsx\<close> keeps itineraries in one SQLite table and
  serves five routes over it. The list-valued fields \<^verbatim>\<open>interests\<close> and
  \<^verbatim>\<open>activities\<close> are written with \<^verbatim>\<open>JSON.stringify\<close> and read back with
  \<^verbatim>\<open>JSON.parse\<close>. This theory embeds the two JSON built-ins, the table, the five
  SQL statements and the five route handlers, and proves the properties of the
  specification about them.

  A JavaScript string is a \<^typ>\<open>string\<close> here, the list of its code units; the type
  holds the code units below 256.
\<close>

subsection \<open>JSON values\<close>

text \<open>
  The values of JSON texts: what \<^verbatim>\<open>JSON.parse\<close> returns and what a field of a
  request body holds. A number is kept as its decimal text (\<^verbatim>\<open>JSON.parse\<close> keeps the
  digits it read; the floating-point value plays no part here), an object as its members
  in their order.
\<close>

datatype json =
    JNull
  | JBool bool
  | JNum string
  | JStr string
  | JArr "json list"
  | JObj "(string \<times> json) list"

subsection \<open>\<^verbatim>\<open>JSON.parse\<close>\<close>

definition is_ws :: "char \<Rightarrow> bool" where
  "is_ws c \<longleftrightarrow> c = CHR 0x20 \<or> c = CHR 0x09 \<or> c = CHR 0x0A \<or> c = CHR 0x0D"

definition skip_ws :: "string \<Rightarrow> string" where
  "skip_ws s = dropWhile is_ws s"

definition hex_value :: "char \<Rightarrow> nat option" where
  "hex_value c =
     (let n = (of_char c :: nat) in
      if 48 \<le> n \<and> n \<le> 57 then Some (n - 48)
      else if 97 \<le> n \<and> n \<le> 102 then Some (n - 87)
      else if 65 \<le> n \<and> n \<le> 70 then Some (n - 55)
      else None)"

definition hex4 :: "char \<Rightarrow> char \<Rightarrow> char \<Rightarrow> char \<Rightarrow> nat option" where
  "hex4 h1 h2 h3 h4 =
     (case hex_value h1 of
        None \<Rightarrow> None
      | Some a \<Rightarrow>
          (case hex_value h2 of
             None \<Rightarrow> None
           | Some b \<Rightarrow>
               (case hex_value h3 of
                  None \<Rightarrow> None
                | Some c \<Rightarrow>
                    (case hex_value h4 of
                       None \<Rightarrow> None
                     | Some d \<Rightarrow> Some (a * 4096 + b * 256 + c * 16 + d)))))"

definition unescape :: "char \<Rightarrow> char option" where
  "unescape e =
     (if e = CHR 0x22 then Some (CHR 0x22)
      else if e = CHR 0x5C then Some (CHR 0x5C)
      else if e = CHR ''/'' then Some (CHR ''/'')
      else if e = CHR ''b'' then Some (CHR 0x08)
      else if e = CHR ''f'' then Some (CHR 0x0C)
      else if e = CHR ''n'' then Some (CHR 0x0A)
      else if e = CHR ''r'' then Some (CHR 0x0D)
      else if e = CHR ''t'' then Some (CHR 0x09)
      else None)"

definition cons_to :: "'a \<Rightarrow> ('a list \<times> 'b) option \<Rightarrow> ('a list \<times> 'b) option" where
  "cons_to x res = (case res of None \<Rightarrow> None | Some (xs, rest) \<Rightarrow> Some (x # xs, rest))"

text \<open>
  The characters of a string literal after its opening quote, up to and including the
  closing quote: the decoded string and the text that follows. An unescaped code unit
  below 0x20 is not allowed in a literal. An escape \<^verbatim>\<open>\uXXXX\<close> of a code unit from 256 on
  names a character that a \<^typ>\<open>string\<close> cannot hold; the model refuses the text there,
  and \<open>QuoteJSONString\<close> never writes one.
\<close>

fun parse_chars :: "string \<Rightarrow> (string \<times> string) option" where
  "parse_chars [] = None"
| "parse_chars (c # cs) =
     (if c = CHR 0x22 then Some ([], cs)
      else if c = CHR 0x5C then
        (case cs of
           [] \<Rightarrow> None
         | e # r \<Rightarrow>
             if e = CHR ''u'' then
               (case r of
                  h1 # h2 # h3 # h4 # r' \<Rightarrow>
                    (case hex4 h1 h2 h3 h4 of
                       None \<Rightarrow> None
                     | Some n \<Rightarrow> if n < 256 then cons_to (char_of n) (parse_chars r') else None)
                | _ \<Rightarrow> None)
             else
               (case unescape e of
                  None \<Rightarrow> None
                | Some x \<Rightarrow> cons_to x (parse_chars r)))
      else if (of_char c :: nat) < 32 then None
      else cons_to c (parse_chars cs))"

text \<open>
  A number: an optional minus sign, \<^verbatim>\<open>0\<close> or a digit sequence that does not start with
  \<^verbatim>\<open>0\<close>, an optional fraction, an optional exponent.
\<close>

definition is_digit :: "char \<Rightarrow> bool" where
  "is_digit c \<longleftrightarrow> 48 \<le> (of_char c :: nat) \<and> (of_char c :: nat) \<le> 57"

definition lex_digits :: "string \<Rightarrow> (string \<times> string) option" where
  "lex_digits s =
     (if takeWhile is_digit s = [] then None
      else Some (takeWhile is_digit s, dropWhile is_digit s))"

definition lex_sign :: "string \<Rightarrow> string \<times> string" where
  "lex_sign s = (case s of [] \<Rightarrow> ([], s) | c # r \<Rightarrow> if c = CHR ''-'' then ([c], r) else ([], s))"

definition lex_int :: "string \<Rightarrow> (string \<times> string) option" where
  "lex_int s = (case s of [] \<Rightarrow> None | c # r \<Rightarrow> if c = CHR ''0'' then Some ([c], r) else lex_digits s)"

definition lex_frac :: "string \<Rightarrow> (string \<times> string) option" where
  "lex_frac s =
     (case s of
        [] \<Rightarrow> Some ([], s)
      | c # r \<Rightarrow> if c = CHR ''.'' then cons_to c (lex_digits r) else Some ([], s))"

definition lex_exp :: "string \<Rightarrow> (string \<times> string) option" where
  "lex_exp s =
     (case s of
        [] \<Rightarrow> Some ([], s)
      | c # r \<Rightarrow>
          if c = CHR ''e'' \<or> c = CHR ''E'' then
            (case r of
               [] \<Rightarrow> None
             | g # r' \<Rightarrow>
                 if g = CHR ''+'' \<or> g = CHR ''-'' then cons_to c (cons_to g (lex_digits r'))
                 else cons_to c (lex_digits r))
          else Some ([], s))"

definition lex_number :: "string \<Rightarrow> (string \<times> string) option" where
  "lex_number s =
     (case lex_int (snd (lex_sign s)) of
        None \<Rightarrow> None
      | Some (i, s1) \<Rightarrow>
          (case lex_frac s1 of
             None \<Rightarrow> None
           | Some (f, s2) \<Rightarrow>
               (case lex_exp s2 of
                  None \<Rightarrow> None
                | Some (e, s3) \<Rightarrow> Some (fst (lex_sign s) @ i @ f @ e, s3))))"

fun strip_prefix :: "string \<Rightarrow> string \<Rightarrow> string option" where
  "strip_prefix [] s = Some s"
| "strip_prefix (p # ps) [] = None"
| "strip_prefix (p # ps) (c # cs) = (if p = c then strip_prefix ps cs else None)"

definition literal :: "string \<Rightarrow> json \<Rightarrow> string \<Rightarrow> (json \<times> string) option" where
  "literal p v s = (case strip_prefix p s of None \<Rightarrow> None | Some rest \<Rightarrow> Some (v, rest))"

definition with_value :: "('a \<Rightarrow> json) \<Rightarrow> ('a \<times> string) option \<Rightarrow> (json \<times> string) option" where
  "with_value f res = (case res of None \<Rightarrow> None | Some (x, rest) \<Rightarrow> Some (f x, rest))"

text \<open>
  A value, the elements of an array after its opening bracket, the members of an object
  after its opening brace. Each returns what it read and the text that follows. The test
  \<open>length r < length s\<close> on what \<open>parse_value\<close> returned is there for the
  recursion to be well-founded; \<open>parse_value\<close> always reads at least one character, so
  the test never fails.
\<close>

function parse_value :: "string \<Rightarrow> (json \<times> string) option"
  and parse_elements :: "string \<Rightarrow> (json list \<times> string) option"
  and parse_members :: "string \<Rightarrow> ((string \<times> json) list \<times> string) option"
where
  "parse_value s =
     (case skip_ws s of
        [] \<Rightarrow> None
      | c # r \<Rightarrow>
          if c = CHR ''['' then
            (case skip_ws r of
               [] \<Rightarrow> None
             | c' # r' \<Rightarrow>
                 if c' = CHR '']'' then Some (JArr [], r') else with_value JArr (parse_elements r))
          else if c = CHR ''{'' then
            (case skip_ws r of
               [] \<Rightarrow> None
             | c' # r' \<Rightarrow>
                 if c' = CHR ''}'' then Some (JObj [], r') else with_value JObj (parse_members r))
          else if c = CHR 0x22 then with_value JStr (parse_chars r)
          else if c = CHR ''t'' then literal ''rue'' (JBool True) r
          else if c = CHR ''f'' then literal ''alse'' (JBool False) r
          else if c = CHR ''n'' then literal ''ull'' JNull r
          else with_value JNum (lex_number (c # r)))"
| "parse_elements s =
     (case parse_value s of
        None \<Rightarrow> None
      | Some (v, r) \<Rightarrow>
          if length r < length s then
            (case skip_ws r of
               [] \<Rightarrow> None
             | c # r' \<Rightarrow>
                 if c = CHR '','' then cons_to v (parse_elements r')
                 else if c = CHR '']'' then Some ([v], r')
                 else None)
          else None)"
| "parse_members s =
     (case skip_ws s of
        [] \<Rightarrow> None
      | q # r \<Rightarrow>
          if q = CHR 0x22 then
            (case parse_chars r of
               None \<Rightarrow> None
             | Some (k, r1) \<Rightarrow>
                 (case skip_ws r1 of
                    [] \<Rightarrow> None
                  | d # r2 \<Rightarrow>
                      if d = CHR '':'' \<and> length r2 < length s then
                        (case parse_value r2 of
                           None \<Rightarrow> None
                         | Some (v, r3) \<Rightarrow>
                             if length r3 < length r2 then
                               (case skip_ws r3 of
                                  [] \<Rightarrow> None
                                | c # r4 \<Rightarrow>
                                    if c = CHR '','' then cons_to (k, v) (parse_members r4)
                                    else if c = CHR ''}'' then Some ([(k, v)], r4)
                                    else None)
                             else None)
                      else None))
          else None)"
  by pat_completeness auto
termination
proof -
  have shorter: "length r < length s" if "skip_ws s = c # r" for s :: string and c r
  proof -
    have "length (skip_ws s) \<le> length s"
      unfolding skip_ws_def by (rule length_dropWhile_le)
    with that show ?thesis by simp
  qed
  show ?thesis
    by (relation "measures
          [\<lambda>x. case x of Inl s \<Rightarrow> length s | Inr (Inl s) \<Rightarrow> length s | Inr (Inr s) \<Rightarrow> length s,
           \<lambda>x. case x of Inl s \<Rightarrow> 0 | Inr (Inl s) \<Rightarrow> Suc 0 | Inr (Inr s) \<Rightarrow> Suc 0]")
       (auto dest: shorter)
qed

declare parse_value.simps [simp del] parse_elements.simps [simp del] parse_members.simps [simp del]

text \<open>
  \<^verbatim>\<open>JSON.parse(text)\<close>: one value between optional white space and nothing after it, or a
  \<^verbatim>\<open>SyntaxError\<close> (\<open>None\<close>).
\<close>

definition JSON_parse :: "string \<Rightarrow> json option" where
  "JSON_parse t =
     (case parse_value t of
        None \<Rightarrow> None
      | Some (v, r) \<Rightarrow> if skip_ws r = [] then Some v else None)"

subsection \<open>\<^verbatim>\<open>JSON.stringify\<close>\<close>

text \<open>
  ECMAScript's QuoteJSONString: the two-character escapes for backspace, tab, line feed,
  form feed, carriage return, the double quote and the backslash; \<^verbatim>\<open>\u00XX\<close> with
  lowercase hexadecimal digits for every other code unit below 0x20; every other code unit
  as it is.
\<close>

definition hex_digit :: "nat \<Rightarrow> char" where
  "hex_digit n = (if n < 10 then char_of (48 + n) else char_of (87 + n))"

definition UnicodeEscape :: "char \<Rightarrow> string" where
  "UnicodeEscape c =
     (let n = (of_char c :: nat) in
      [CHR 0x5C, CHR ''u'', hex_digit (n div 4096 mod 16), hex_digit (n div 256 mod 16),
       hex_digit (n div 16 mod 16), hex_digit (n mod 16)])"

definition quote_char :: "char \<Rightarrow> string" where
  "quote_char c =
     (if c = CHR 0x08 then [CHR 0x5C, CHR ''b'']
      else if c = CHR 0x09 then [CHR 0x5C, CHR ''t'']
      else if c = CHR 0x0A then [CHR 0x5C, CHR ''n'']
      else if c = CHR 0x0C then [CHR 0x5C, CHR ''f'']
      else if c = CHR 0x0D then [CHR 0x5C, CHR ''r'']
      else if c = CHR 0x22 then [CHR 0x5C, CHR 0x22]
      else if c = CHR 0x5C then [CHR 0x5C, CHR 0x5C]
      else if (of_char c :: nat) < 32 then UnicodeEscape c
      else [c])"

definition QuoteJSONString :: "string \<Rightarrow> string" where
  "QuoteJSONString s = CHR 0x22 # concat (map quote_char s) @ [CHR 0x22]"

text \<open>The elements of an array or the members of an object, separated by commas.\<close>

fun join_comma :: "string list \<Rightarrow> string" where
  "join_comma [] = []"
| "join_comma [x] = x"
| "join_comma (x # y # ys) = x @ CHR '','' # join_comma (y # ys)"

text \<open>
  A number value is kept as the decimal text that JavaScript gives it, which is a JSON
  number for every finite number. A \<open>JNum\<close> whose text is no JSON number stands for
  \<^verbatim>\<open>NaN\<close> or an infinity, which \<^verbatim>\<open>JSON.stringify\<close> writes as \<^verbatim>\<open>null\<close>.
\<close>

definition finite_number :: "string \<Rightarrow> bool" where
  "finite_number n \<longleftrightarrow> lex_number n = Some (n, [])"

text \<open>
  ECMAScript's SerializeJSONProperty with no indentation, on the values that a JSON text
  can denote: the literals, a number, a quoted string, the elements of an array between
  brackets, the members of an object, each its quoted key, a colon and its value, between
  braces.
\<close>

fun SerializeJSONProperty :: "json \<Rightarrow> string" where
  "SerializeJSONProperty JNull = ''null''"
| "SerializeJSONProperty (JBool b) = (if b then ''true'' else ''false'')"
| "SerializeJSONProperty (JNum n) = (if finite_number n then n else ''null'')"
| "SerializeJSONProperty (JStr s) = QuoteJSONString s"
| "SerializeJSONProperty (JArr vs) =
     CHR ''['' # join_comma (map SerializeJSONProperty vs) @ [CHR '']'']"
| "SerializeJSONProperty (JObj ms) =
     CHR ''{'' # join_comma (map (\<lambda>(k, v). QuoteJSONString k @ CHR '':'' # SerializeJSONProperty v) ms)
       @ [CHR ''}'']"

text \<open>
  \<^verbatim>\<open>JSON.stringify(v)\<close> for a field of the request body, which holds a value that
  \<^verbatim>\<open>express.json()\<close> parsed or is absent: \<^verbatim>\<open>JSON.stringify(undefined)\<close> is
  \<^verbatim>\<open>undefined\<close>, not a text.
\<close>

definition JSON_stringify :: "json option \<Rightarrow> string option" where
  "JSON_stringify v = (case v of None \<Rightarrow> None | Some x \<Rightarrow> Some (SerializeJSONProperty x))"

subsection \<open>Texts that \<^verbatim>\<open>JSON.stringify\<close> wrote\<close>

text \<open>
  What \<^verbatim>\<open>JSON.parse\<close> returns for the text that \<^verbatim>\<open>JSON.stringify\<close> wrote for a
  value: the value, with \<^verbatim>\<open>null\<close> for every number that is not finite.
\<close>

fun read_back :: "json \<Rightarrow> json" where
  "read_back (JNum n) = (if finite_number n then JNum n else JNull)"
| "read_back (JArr vs) = JArr (map read_back vs)"
| "read_back (JObj ms) = JObj (map (\<lambda>(k, v). (k, read_back v)) ms)"
| "read_back v = v"

text \<open>
  What follows a value inside such a text: nothing, a comma, or the bracket or brace that
  closes the array or object around it.
\<close>

definition delimited :: "string \<Rightarrow> bool" where
  "delimited rest \<longleftrightarrow>
     (case rest of [] \<Rightarrow> True | c # _ \<Rightarrow> c = CHR '','' \<or> c = CHR '']'' \<or> c = CHR ''}'')"

subsection \<open>The table\<close>

text \<open>
  \<^verbatim>\<open>CREATE TABLE IF NOT EXISTS itineraries (id TEXT PRIMARY KEY, title TEXT, ...,
  created_at DATETIME DEFAULT CURRENT_TIMESTAMP)\<close>. Every column but the key may hold
  \<^verbatim>\<open>NULL\<close> (\<open>None\<close>). \<^verbatim>\<open>CURRENT_TIMESTAMP\<close> is the time of the insertion in whole
  seconds, written as \<^verbatim>\<open>YYYY-MM-DD HH:MM:SS\<close>; the model keeps the number of seconds,
  which orders the rows as the text does. A table is the list of its rows in the order of
  their insertion, the order in which SQLite scans it.
\<close>

record row =
  row_id :: string
  row_title :: "string option"
  row_destination :: "string option"
  row_duration :: "int option"
  row_budget :: "string option"
  row_type :: "string option"
  row_interests :: "string option"
  row_activities :: "string option"
  row_content :: "string option"
  row_created_at :: nat

type_synonym itineraries = "row list"

text \<open>
  The failures of the specification's taxonomy. \<open>NotFound\<close> is the 404 reply,
  \<open>MalformedDataError\<close> the \<^verbatim>\<open>SyntaxError\<close> that \<^verbatim>\<open>JSON.parse\<close> throws,
  \<open>StorageError\<close> the \<^verbatim>\<open>SqliteError\<close> of a statement (here: a key that is already in
  the table). No handler of the source produces \<open>ValidationError\<close>.
\<close>

datatype error = ValidationError | NotFound | MalformedDataError | StorageError

text \<open>
  \<^verbatim>\<open>INSERT INTO itineraries (id, title, destination, duration, budget, type, interests,
  activities, content) VALUES (?, ?, ?, ?, ?, ?, ?, ?, ?)\<close>, run at the time \<open>now\<close>.
  The binding stores \<^verbatim>\<open>undefined\<close> as \<^verbatim>\<open>NULL\<close>, as better-sqlite3 does.
\<close>

definition sql_insert ::
  "nat \<Rightarrow> itineraries \<Rightarrow> string \<Rightarrow> string option \<Rightarrow> string option \<Rightarrow> int option \<Rightarrow>
   string option \<Rightarrow> string option \<Rightarrow> string option \<Rightarrow> string option \<Rightarrow> string option \<Rightarrow>
   error + itineraries" where
  "sql_insert now db i t d n b ty ins acts c =
     (if i \<in> set (map row_id db) then Inl StorageError
      else Inr (db @ [\<lparr>row_id = i, row_title = t, row_destination = d, row_duration = n,
                        row_budget = b, row_type = ty, row_interests = ins,
                        row_activities = acts, row_content = c, row_created_at = now\<rparr>]))"

text \<open>
  \<^verbatim>\<open>SELECT * FROM itineraries ORDER BY created_at DESC\<close>: the rows by decreasing
  \<^verbatim>\<open>created_at\<close>; rows of the same second stay in the order of the scan.
\<close>

definition sql_select_all :: "itineraries \<Rightarrow> row list" where
  "sql_select_all db = sort_key (\<lambda>r. - int (row_created_at r)) db"

text \<open>\<^verbatim>\<open>SELECT * FROM itineraries WHERE id = ?\<close>, read with \<^verbatim>\<open>get\<close>.\<close>

definition sql_select_by_id :: "itineraries \<Rightarrow> string \<Rightarrow> row option" where
  "sql_select_by_id db i = find (\<lambda>r. row_id r = i) db"

text \<open>\<^verbatim>\<open>UPDATE itineraries SET title = ? WHERE id = ?\<close>\<close>

definition sql_update_title :: "itineraries \<Rightarrow> string option \<Rightarrow> string \<Rightarrow> itineraries" where
  "sql_update_title db t i = map (\<lambda>r. if row_id r = i then r\<lparr>row_title := t\<rparr> else r) db"

text \<open>\<^verbatim>\<open>DELETE FROM itineraries WHERE id = ?\<close>\<close>

definition sql_delete :: "itineraries \<Rightarrow> string \<Rightarrow> itineraries" where
  "sql_delete db i = filter (\<lambda>r. row_id r \<noteq> i) db"

subsection \<open>The route handlers\<close>

text \<open>
  The fields that \<^verbatim>\<open>app.post\<close> reads from \<^verbatim>\<open>req.body\<close>. A field that the body
  does not have is \<^verbatim>\<open>undefined\<close> (\<open>None\<close>). The handler passes
  \<^verbatim>\<open>interests\<close> and \<^verbatim>\<open>activities\<close> to \<^verbatim>\<open>JSON.stringify\<close> whatever they
  are, so these two hold any value of the body: an array of strings, as the interface
  \<^verbatim>\<open>TripDetails\<close> declares them, or \<^verbatim>\<open>null\<close>, a string, a number, an object.
  The other fields, when present, are of the type that the interfaces \<^verbatim>\<open>TripDetails\<close>
  and \<^verbatim>\<open>SavedTrip\<close> give them.
\<close>

record body =
  req_title :: "string option"
  req_destination :: "string option"
  req_duration :: "int option"
  req_budget :: "string option"
  req_type :: "string option"
  req_interests :: "json option"
  req_activities :: "json option"
  req_content :: "string option"

text \<open>
  What the two \<^verbatim>\<open>GET\<close> routes send for a row: the row with \<^verbatim>\<open>interests\<close> and
  \<^verbatim>\<open>activities\<close> replaced by what \<^verbatim>\<open>JSON.parse\<close> returned for them.
\<close>

record saved_trip =
  trip_id :: string
  trip_title :: "string option"
  trip_destination :: "string option"
  trip_duration :: "int option"
  trip_budget :: "string option"
  trip_type :: "string option"
  trip_interests :: json
  trip_activities :: json
  trip_content :: "string option"
  trip_created_at :: nat

text \<open>
  The title that \<^verbatim>\<open>app.post\<close> stores, \<^verbatim>\<open>title || `Viaggio a ${destination}`\<close>:
  the title of the body unless it is \<^verbatim>\<open>undefined\<close> or the empty string. In the template
  an absent destination reads \<^verbatim>\<open>undefined\<close>.
\<close>

definition template_text :: "string option \<Rightarrow> string" where
  "template_text v = (case v of None \<Rightarrow> ''undefined'' | Some s \<Rightarrow> s)"

definition default_title :: "string option \<Rightarrow> string" where
  "default_title d = ''Viaggio a '' @ template_text d"

definition truthy :: "string option \<Rightarrow> bool" where
  "truthy v = (case v of None \<Rightarrow> False | Some s \<Rightarrow> s \<noteq> [])"

definition title_or_default :: "string option \<Rightarrow> string option \<Rightarrow> string option" where
  "title_or_default t d = (if truthy t then t else Some (default_title d))"

text \<open>
  \<^verbatim>\<open>app.post("/api/itineraries")\<close>, with the identifier \<open>uuid\<close> that \<^verbatim>\<open>uuidv4()\<close>
  returned and the time \<open>now\<close> of the insertion. It replies with the identifier; an
  exception of the statement leaves the table as it was.
\<close>

definition post_itineraries ::
  "itineraries \<Rightarrow> string \<Rightarrow> nat \<Rightarrow> body \<Rightarrow> error + (string \<times> itineraries)" where
  "post_itineraries db uuid now b =
     (case sql_insert now db uuid
             (title_or_default (req_title b) (req_destination b))
             (req_destination b) (req_duration b) (req_budget b) (req_type b)
             (JSON_stringify (req_interests b)) (JSON_stringify (req_activities b))
             (req_content b) of
        Inl e \<Rightarrow> Inl e
      | Inr db' \<Rightarrow> Inr (uuid, db'))"

text \<open>
  \<^verbatim>\<open>JSON.parse(row.interests as string)\<close>: the cast does nothing at run time, and
  \<^verbatim>\<open>JSON.parse\<close> reads a \<^verbatim>\<open>null\<close> argument as the text \<^verbatim>\<open>null\<close>.
\<close>

definition column_text :: "string option \<Rightarrow> string" where
  "column_text c = (case c of None \<Rightarrow> ''null'' | Some t \<Rightarrow> t)"

definition decode_row :: "row \<Rightarrow> error + saved_trip" where
  "decode_row r =
     (case JSON_parse (column_text (row_interests r)) of
        None \<Rightarrow> Inl MalformedDataError
      | Some ins \<Rightarrow>
          (case JSON_parse (column_text (row_activities r)) of
             None \<Rightarrow> Inl MalformedDataError
           | Some acts \<Rightarrow>
               Inr \<lparr>trip_id = row_id r, trip_title = row_title r,
                    trip_destination = row_destination r, trip_duration = row_duration r,
                    trip_budget = row_budget r, trip_type = row_type r,
                    trip_interests = ins, trip_activities = acts,
                    trip_content = row_content r, trip_created_at = row_created_at r\<rparr>))"

text \<open>\<^verbatim>\<open>rows.map(row => ...)\<close>: the first row that does not parse ends the reply.\<close>

fun decode_rows :: "row list \<Rightarrow> error + saved_trip list" where
  "decode_rows [] = Inr []"
| "decode_rows (r # rs) =
     (case decode_row r of
        Inl e \<Rightarrow> Inl e
      | Inr t \<Rightarrow> (case decode_rows rs of Inl e \<Rightarrow> Inl e | Inr ts \<Rightarrow> Inr (t # ts)))"

text \<open>\<^verbatim>\<open>app.get("/api/itineraries")\<close>\<close>

definition get_itineraries :: "itineraries \<Rightarrow> error + saved_trip list" where
  "get_itineraries db = decode_rows (sql_select_all db)"

text \<open>\<^verbatim>\<open>app.get("/api/itineraries/:id")\<close>\<close>

definition get_itinerary :: "itineraries \<Rightarrow> string \<Rightarrow> error + saved_trip" where
  "get_itinerary db i =
     (case sql_select_by_id db i of
        None \<Rightarrow> Inl NotFound
      | Some r \<Rightarrow> decode_row r)"

text \<open>
  \<^verbatim>\<open>app.patch("/api/itineraries/:id")\<close> and \<^verbatim>\<open>app.delete("/api/itineraries/:id")\<close>:
  the statement, then \<^verbatim>\<open>{ success: true }\<close>. The first component is the
  \<^verbatim>\<open>success\<close> of the reply.
\<close>

definition patch_itinerary :: "itineraries \<Rightarrow> string \<Rightarrow> string option \<Rightarrow> bool \<times> itineraries" where
  "patch_itinerary db i t = (True, sql_update_title db t i)"

definition delete_itinerary :: "itineraries \<Rightarrow> string \<Rightarrow> bool \<times> itineraries" where
  "delete_itinerary db i = (True, sql_delete db i)"

subsection \<open>Sequences of requests\<close>

text \<open>
  The requests that change the table, and the table after a sequence of them on the empty
  table that the \<^verbatim>\<open>CREATE TABLE\<close> statement leaves.
\<close>

datatype request =
    Create string nat body
  | Rename string "string option"
  | Delete string

fun apply_request :: "itineraries \<Rightarrow> request \<Rightarrow> itineraries" where
  "apply_request db (Create uuid now b) =
     (case post_itineraries db uuid now b of Inl e \<Rightarrow> db | Inr (i, db') \<Rightarrow> db')"
| "apply_request db (Rename i t) = snd (patch_itinerary db i t)"
| "apply_request db (Delete i) = snd (delete_itinerary db i)"

definition run :: "request list \<Rightarrow> itineraries" where
  "run reqs = foldl apply_request [] reqs"

subsection \<open>Notions of the specification\<close>

text \<open>
  A create input is valid when \<^verbatim>\<open>destination\<close> and \<^verbatim>\<open>content\<close> are present.
\<close>

definition valid_input :: "body \<Rightarrow> bool" where
  "valid_input b \<longleftrightarrow> req_destination b \<noteq> None \<and> req_content b \<noteq> None"

text \<open>
  A field of the body as a reply shows it when it comes back unchanged: an absent one
  reads \<^verbatim>\<open>null\<close>.
\<close>

definition as_json :: "json option \<Rightarrow> json" where
  "as_json v = (case v of None \<Rightarrow> JNull | Some x \<Rightarrow> x)"

text \<open>
  The request shape of the specification: \<^verbatim>\<open>interests\<close> and \<^verbatim>\<open>activities\<close> are
  sequences of strings, each an array of strings or absent.
\<close>

fun is_JStr :: "json \<Rightarrow> bool" where
  "is_JStr (JStr s) = True"
| "is_JStr v = False"

definition is_sequence :: "json option \<Rightarrow> bool" where
  "is_sequence v =
     (case v of None \<Rightarrow> True | Some (JArr vs) \<Rightarrow> list_all is_JStr vs | Some _ \<Rightarrow> False)"

definition sequence_fields :: "body \<Rightarrow> bool" where
  "sequence_fields b \<longleftrightarrow> is_sequence (req_interests b) \<and> is_sequence (req_activities b)"








subsection \<open>Inputs of the examples\<close>

text \<open>The create input of the specification's scenario, which has no title.\<close>

definition tokyo :: body where
  "tokyo = \<lparr>req_title = None, req_destination = Some ''Tokyo'', req_duration = Some 5,
            req_budget = Some ''medio'', req_type = Some ''cultural'',
            req_interests = Some (JArr [JStr ''Arte'']),
            req_activities = Some (JArr [JStr ''Musei'']),
            req_content = Some ''# Day 1''\<rparr>"

definition trip_A :: body where
  "trip_A = tokyo\<lparr>req_title := Some ''A''\<rparr>"

definition trip_B :: body where
  "trip_B = tokyo\<lparr>req_title := Some ''B''\<rparr>"

definition trip_C :: body where
  "trip_C = tokyo\<lparr>req_title := Some ''C''\<rparr>"

section \<open>Properties\<close>

subsection \<open>String literals\<close>

lemma hex_value_hex_digit: "k < 16 \<Longrightarrow> hex_value (hex_digit k) = Some k"
  by (auto simp: hex_value_def hex_digit_def Let_def)

lemma hex4_escape:
  assumes "n < 256"
  shows "hex4 (hex_digit (n div 4096 mod 16)) (hex_digit (n div 256 mod 16))
           (hex_digit (n div 16 mod 16)) (hex_digit (n mod 16)) = Some n"
proof -
  have hi: "n div 4096 = 0" "n div 256 = 0" and mid: "n div 16 < 16"
    using assms by simp_all
  show ?thesis
    by (simp add: hex4_def hex_value_hex_digit hi mid)
qed

lemma parse_chars_u:
  "hex4 h1 h2 h3 h4 = Some n \<Longrightarrow> n < 256 \<Longrightarrow>
   parse_chars (CHR 0x5C # CHR ''u'' # h1 # h2 # h3 # h4 # t) = cons_to (char_of n) (parse_chars t)"
  by simp

lemma parse_chars_UnicodeEscape:
  "parse_chars (UnicodeEscape c @ t) = cons_to c (parse_chars t)"
proof -
  have lt: "(of_char c :: nat) < 256" by simp
  show ?thesis
    by (simp only: UnicodeEscape_def Let_def append_Cons append_Nil
          parse_chars_u[OF hex4_escape[OF lt] lt] char_of_char)
qed

lemma parse_chars_quote_char:
  "parse_chars (quote_char c @ t) = cons_to c (parse_chars t)"
  by (simp add: quote_char_def parse_chars_UnicodeEscape unescape_def)

lemma parse_chars_quoted:
  "parse_chars (concat (map quote_char s) @ CHR 0x22 # rest) = Some (s, rest)"
  by (induction s) (simp_all add: parse_chars_quote_char cons_to_def)

lemma parse_value_string:
  "parse_value (QuoteJSONString s @ rest) = Some (JStr s, rest)"
  by (subst parse_value.simps)
     (simp add: QuoteJSONString_def skip_ws_def is_ws_def parse_chars_quoted with_value_def)

subsection \<open>The parser reads at least one character\<close>

text \<open>
  Whatever \<open>parse_value\<close>, \<open>parse_elements\<close> and \<open>parse_members\<close> return, the
  text that follows is shorter than the text they were given. So the tests on the lengths
  in their definitions never fail, and the functions satisfy the equations without them.
\<close>

lemma skip_ws_Cons_shorter: "skip_ws s = c # r \<Longrightarrow> length r < length s"
proof -
  assume a: "skip_ws s = c # r"
  have "length (skip_ws s) \<le> length s"
    unfolding skip_ws_def by (rule length_dropWhile_le)
  with a show ?thesis by simp
qed

lemma cons_to_Some: "cons_to x res = Some (ys, rest) \<Longrightarrow> \<exists>xs. res = Some (xs, rest)"
  by (auto simp: cons_to_def split: option.splits)

lemma with_value_Some: "with_value f res = Some (v, rest) \<Longrightarrow> \<exists>x. res = Some (x, rest)"
  by (auto simp: with_value_def split: option.splits)

lemma parse_chars_shorter: "parse_chars s = Some (x, r) \<Longrightarrow> length r < length s"
proof (induction s arbitrary: x rule: parse_chars.induct)
  case 1
  then show ?case by simp
next
  case (2 c cs)
  show ?case
  proof (cases "c = CHR 0x22")
    case True
    with "2.prems" show ?thesis by simp
  next
    case notq: False
    show ?thesis
    proof (cases "c = CHR 0x5C")
      case False
      with notq "2.prems" obtain xs where "parse_chars cs = Some (xs, r)"
        by (auto split: if_splits dest: cons_to_Some)
      with "2.IH"(3)[OF notq False] notq False "2.prems" show ?thesis
        by (fastforce split: if_splits)
    next
      case bs: True
      from bs notq "2.prems" obtain e r0 where cs: "cs = e # r0"
        by (cases cs) auto
      show ?thesis
      proof (cases "e = CHR ''u''")
        case False
        with bs notq cs "2.prems" obtain y xs where u: "unescape e = Some y"
          and p: "parse_chars r0 = Some (xs, r)"
          by (auto split: option.splits dest: cons_to_Some)
        from "2.IH"(2)[OF notq bs cs False u p] cs show ?thesis by simp
      next
        case True
        with bs notq cs "2.prems" obtain h1 h2 h3 h4 r' where r0: "r0 = h1 # h2 # h3 # h4 # r'"
          by (auto split: list.splits)
        with True bs notq cs "2.prems" obtain n xs where h: "hex4 h1 h2 h3 h4 = Some n"
          and n: "n < 256" and p: "parse_chars r' = Some (xs, r)"
          by (auto split: option.splits if_splits dest: cons_to_Some)
        from "2.IH"(1)[OF notq bs cs True r0 refl refl refl h n p] cs r0 show ?thesis by simp
      qed
    qed
  qed
qed

lemma lex_digits_shorter: "lex_digits s = Some (x, r) \<Longrightarrow> length r < length s"
proof -
  assume a: "lex_digits s = Some (x, r)"
  have total: "length (takeWhile is_digit s) + length (dropWhile is_digit s) = length s"
    by (metis length_append takeWhile_dropWhile_id)
  from a have t: "takeWhile is_digit s \<noteq> []" and r: "r = dropWhile is_digit s"
    by (auto simp: lex_digits_def split: if_splits)
  from t have "0 < length (takeWhile is_digit s)"
    by simp
  with total show ?thesis
    unfolding r by linarith
qed

lemma lex_int_shorter: "lex_int s = Some (x, r) \<Longrightarrow> length r < length s"
  by (auto simp: lex_int_def split: list.splits if_splits dest: lex_digits_shorter)

lemma lex_frac_le: "lex_frac s = Some (x, r) \<Longrightarrow> length r \<le> length s"
  by (auto simp: lex_frac_def split: list.splits if_splits dest!: cons_to_Some lex_digits_shorter)

lemma lex_exp_le: "lex_exp s = Some (x, r) \<Longrightarrow> length r \<le> length s"
  by (auto simp: lex_exp_def split: list.splits if_splits dest!: cons_to_Some lex_digits_shorter)

lemma lex_sign_le: "length (snd (lex_sign s)) \<le> length s"
  by (simp add: lex_sign_def split: list.splits)

lemma lex_number_shorter: "lex_number s = Some (x, r) \<Longrightarrow> length r < length s"
proof -
  assume "lex_number s = Some (x, r)"
  then obtain i s1 f s2 e where "lex_int (snd (lex_sign s)) = Some (i, s1)"
    and "lex_frac s1 = Some (f, s2)" and "lex_exp s2 = Some (e, r)"
    by (auto simp: lex_number_def split: option.splits)
  then have "length s1 < length (snd (lex_sign s))" "length s2 \<le> length s1" "length r \<le> length s2"
    by (auto dest: lex_int_shorter lex_frac_le lex_exp_le)
  with lex_sign_le[of s] show ?thesis by simp
qed

lemma strip_prefix_le: "strip_prefix p s = Some r \<Longrightarrow> length r \<le> length s"
  by (induction p s rule: strip_prefix.induct) (auto split: if_splits)

lemma literal_le: "literal p v s = Some (x, r) \<Longrightarrow> length r \<le> length s"
  by (auto simp: literal_def split: option.splits dest: strip_prefix_le)

lemma parse_shorter:
  "(\<forall>v r. parse_value s = Some (v, r) \<longrightarrow> length r < length s)"
  "(\<forall>vs r. parse_elements s1 = Some (vs, r) \<longrightarrow> length r < length s1)"
  "(\<forall>ms r. parse_members s2 = Some (ms, r) \<longrightarrow> length r < length s2)"
proof (induction s and s1 and s2 rule: parse_value_parse_elements_parse_members.induct)
  case (1 s)
  show ?case
  proof (intro allI impI)
    fix v r assume a: "parse_value s = Some (v, r)"
    then obtain c r0 where s: "skip_ws s = c # r0"
      by (subst (asm) parse_value.simps) (auto split: list.splits)
    then have r0: "length r0 < length s"
      by (rule skip_ws_Cons_shorter)
    consider (arr) "c = CHR ''[''" | (obj) "c \<noteq> CHR ''[''" "c = CHR ''{''"
      | (other) "c \<noteq> CHR ''[''" "c \<noteq> CHR ''{''"
      by blast
    then show "length r < length s"
    proof cases
      case arr
      from a s arr obtain c' r' where s': "skip_ws r0 = c' # r'"
        by (subst (asm) parse_value.simps) (auto split: list.splits)
      then have r': "length r' < length r0"
        by (rule skip_ws_Cons_shorter)
      show ?thesis
      proof (cases "c' = CHR '']''")
        case True
        with a s arr s' have "r = r'"
          by (subst (asm) parse_value.simps) simp
        with r' r0 show ?thesis by simp
      next
        case False
        with a s arr s' obtain vs where "parse_elements r0 = Some (vs, r)"
          by (subst (asm) parse_value.simps) (auto dest: with_value_Some)
        with "1.IH"(1)[OF s arr s' False] r0 show ?thesis
          by fastforce
      qed
    next
      case obj
      from a s obj obtain c' r' where s': "skip_ws r0 = c' # r'"
        by (subst (asm) parse_value.simps) (auto split: list.splits)
      then have r': "length r' < length r0"
        by (rule skip_ws_Cons_shorter)
      show ?thesis
      proof (cases "c' = CHR ''}''")
        case True
        with a s obj s' have "r = r'"
          by (subst (asm) parse_value.simps) simp
        with r' r0 show ?thesis by simp
      next
        case False
        with a s obj s' obtain ms where "parse_members r0 = Some (ms, r)"
          by (subst (asm) parse_value.simps) (auto dest: with_value_Some)
        with "1.IH"(2)[OF s obj(1) obj(2) s' False] r0 show ?thesis
          by fastforce
      qed
    next
      case other
      with a s have "length r \<le> length (c # r0) \<and> (c = CHR 0x22 \<or> c = CHR ''t'' \<or> c = CHR ''f'' \<or> c = CHR ''n'' \<longrightarrow> length r \<le> length r0)
          \<and> (\<not> (c = CHR 0x22 \<or> c = CHR ''t'' \<or> c = CHR ''f'' \<or> c = CHR ''n'') \<longrightarrow> length r < length (c # r0))"
        by (subst (asm) parse_value.simps)
           (auto split: if_splits dest!: with_value_Some parse_chars_shorter lex_number_shorter
              literal_le)
      moreover have "length (c # r0) \<le> length s"
        using s length_dropWhile_le[of is_ws s] by (simp add: skip_ws_def)
      ultimately show ?thesis
        using r0 by (cases "c = CHR 0x22 \<or> c = CHR ''t'' \<or> c = CHR ''f'' \<or> c = CHR ''n''") auto
    qed
  qed
next
  case (2 s)
  show ?case
  proof (intro allI impI)
    fix vs r assume a: "parse_elements s = Some (vs, r)"
    then obtain v r0 where pv: "parse_value s = Some (v, r0)" and lt: "length r0 < length s"
      by (subst (asm) parse_elements.simps) (auto split: option.splits if_splits)
    with a obtain c r' where s': "skip_ws r0 = c # r'"
      by (subst (asm) parse_elements.simps) (auto split: list.splits)
    then have r': "length r' < length r0"
      by (rule skip_ws_Cons_shorter)
    show "length r < length s"
    proof (cases "c = CHR '',''")
      case True
      with a pv lt s' obtain ws where "parse_elements r' = Some (ws, r)"
        by (subst (asm) parse_elements.simps) (auto dest: cons_to_Some)
      with "2.IH"(2)[OF pv refl lt s' True] r' lt show ?thesis
        by fastforce
    next
      case False
      with a pv lt s' have "r = r'"
        by (subst (asm) parse_elements.simps) (auto split: if_splits)
      with r' lt show ?thesis by simp
    qed
  qed
next
  case (3 s)
  show ?case
  proof (intro allI impI)
    fix ms r assume a: "parse_members s = Some (ms, r)"
    then obtain q r0 where s0: "skip_ws s = q # r0" and q: "q = CHR 0x22"
      by (subst (asm) parse_members.simps) (auto split: list.splits if_splits)
    with a obtain k r1 where pc: "parse_chars r0 = Some (k, r1)"
      by (subst (asm) parse_members.simps) (auto split: option.splits)
    with a s0 q obtain d r2 where s1: "skip_ws r1 = d # r2"
      by (subst (asm) parse_members.simps) (auto split: list.splits)
    with a s0 q pc have d: "d = CHR '':'' \<and> length r2 < length s"
      by (subst (asm) parse_members.simps) (auto split: if_splits)
    with a s0 q pc s1 obtain v r3 where pv: "parse_value r2 = Some (v, r3)"
      by (subst (asm) parse_members.simps) (auto split: option.splits)
    with a s0 q pc s1 d have lt: "length r3 < length r2"
      by (subst (asm) parse_members.simps) (auto split: if_splits)
    with a s0 q pc s1 d pv obtain c r4 where s3: "skip_ws r3 = c # r4"
      by (subst (asm) parse_members.simps) (auto split: list.splits)
    then have r4: "length r4 < length r3"
      by (rule skip_ws_Cons_shorter)
    show "length r < length s"
    proof (cases "c = CHR '',''")
      case True
      with a s0 q pc s1 d pv lt s3 obtain ws where "parse_members r4 = Some (ws, r)"
        by (subst (asm) parse_members.simps) (auto dest: cons_to_Some)
      with "3.IH"(2)[OF s0 q pc refl s1 d pv refl lt s3 True] r4 lt d show ?thesis
        by fastforce
    next
      case False
      with a s0 q pc s1 d pv lt s3 have "r = r4"
        by (subst (asm) parse_members.simps) (auto split: if_splits)
      with r4 lt d show ?thesis by simp
    qed
  qed
qed

lemma parse_elements_unguarded:
  "parse_elements s =
     (case parse_value s of
        None \<Rightarrow> None
      | Some (v, r) \<Rightarrow>
          (case skip_ws r of
             [] \<Rightarrow> None
           | c # r' \<Rightarrow>
               if c = CHR '','' then cons_to v (parse_elements r')
               else if c = CHR '']'' then Some ([v], r')
               else None))"
proof (cases "parse_value s")
  case None
  then show ?thesis
    by (subst parse_elements.simps) simp
next
  case (Some p)
  obtain v r where p: "p = (v, r)" by (cases p)
  with Some parse_shorter(1)[of s] have "length r < length s" by simp
  with Some p show ?thesis
    by (subst parse_elements.simps) simp
qed

lemma parse_members_unguarded:
  "parse_members s =
     (case skip_ws s of
        [] \<Rightarrow> None
      | q # r \<Rightarrow>
          if q = CHR 0x22 then
            (case parse_chars r of
               None \<Rightarrow> None
             | Some (k, r1) \<Rightarrow>
                 (case skip_ws r1 of
                    [] \<Rightarrow> None
                  | d # r2 \<Rightarrow>
                      if d = CHR '':'' then
                        (case parse_value r2 of
                           None \<Rightarrow> None
                         | Some (v, r3) \<Rightarrow>
                             (case skip_ws r3 of
                                [] \<Rightarrow> None
                              | c # r4 \<Rightarrow>
                                  if c = CHR '','' then cons_to (k, v) (parse_members r4)
                                  else if c = CHR ''}'' then Some ([(k, v)], r4)
                                  else None))
                      else None))
          else None)"
proof -
  have g1: "length r2 < length s"
    if "skip_ws s = q # r" "parse_chars r = Some (k, r1)" "skip_ws r1 = d # r2" for q r k r1 d r2
    using that skip_ws_Cons_shorter[of s q r] parse_chars_shorter[of r k r1]
      skip_ws_Cons_shorter[of r1 d r2]
    by simp
  have g2: "length r3 < length r2" if "parse_value r2 = Some (v, r3)" for r2 v r3
    using that parse_shorter(1)[of r2] by simp
  show ?thesis
    by (subst parse_members.simps)
       (auto split: list.splits option.splits simp: g1 g2)
qed


subsection \<open>Numbers\<close>

text \<open>
  The text of a finite number, followed by what can follow a value, is read as this number
  and leaves what follows.
\<close>

lemma takeWhile_append_stop:
  assumes "rest = [] \<or> \<not> P (hd rest)"
  shows "takeWhile P (s @ rest) = takeWhile P s \<and> dropWhile P (s @ rest) = dropWhile P s @ rest"
proof -
  from assms have "takeWhile P rest = [] \<and> dropWhile P rest = rest"
    by (cases rest) auto
  then show ?thesis
    by (induction s) auto
qed

lemma lex_digits_append:
  assumes "lex_digits s = Some (x, r)" and "rest = [] \<or> \<not> is_digit (hd rest)"
  shows "lex_digits (s @ rest) = Some (x, r @ rest)"
  using assms takeWhile_append_stop[of rest is_digit s]
  by (auto simp: lex_digits_def split: if_splits)

lemma lex_int_append:
  assumes "lex_int s = Some (x, r)" and "rest = [] \<or> \<not> is_digit (hd rest)"
  shows "lex_int (s @ rest) = Some (x, r @ rest)"
proof (cases s)
  case Nil
  with assms(1) show ?thesis by (simp add: lex_int_def)
next
  case (Cons c s')
  show ?thesis
  proof (cases "c = CHR ''0''")
    case True
    with Cons assms(1) show ?thesis by (auto simp: lex_int_def)
  next
    case False
    with Cons assms(1) have "lex_digits s = Some (x, r)"
      by (simp add: lex_int_def)
    from lex_digits_append[OF this assms(2)] Cons False show ?thesis
      by (simp add: lex_int_def)
  qed
qed

lemma lex_frac_append:
  assumes "lex_frac s = Some (x, r)" and "rest = [] \<or> \<not> is_digit (hd rest)"
    and "rest = [] \<or> hd rest \<noteq> CHR ''.''"
  shows "lex_frac (s @ rest) = Some (x, r @ rest)"
proof (cases s)
  case Nil
  with assms(1,3) show ?thesis
    by (cases rest) (auto simp: lex_frac_def)
next
  case (Cons c s')
  show ?thesis
  proof (cases "c = CHR ''.''")
    case False
    with Cons assms(1) show ?thesis by (auto simp: lex_frac_def)
  next
    case True
    with Cons assms(1) obtain ds where ds: "lex_digits s' = Some (ds, r)" and x: "x = c # ds"
      by (auto simp: lex_frac_def cons_to_def split: option.splits)
    from lex_digits_append[OF ds assms(2)] Cons True x show ?thesis
      by (simp add: lex_frac_def cons_to_def)
  qed
qed

lemma lex_exp_append:
  assumes "lex_exp s = Some (x, r)" and "rest = [] \<or> \<not> is_digit (hd rest)"
    and "rest = [] \<or> (hd rest \<noteq> CHR ''e'' \<and> hd rest \<noteq> CHR ''E'')"
  shows "lex_exp (s @ rest) = Some (x, r @ rest)"
proof (cases s)
  case Nil
  with assms(1,3) show ?thesis
    by (cases rest) (auto simp: lex_exp_def)
next
  case (Cons c s')
  show ?thesis
  proof (cases "c = CHR ''e'' \<or> c = CHR ''E''")
    case False
    with Cons assms(1) show ?thesis by (auto simp: lex_exp_def)
  next
    case True
    with Cons assms(1) obtain g s'' where s': "s' = g # s''"
      by (cases s') (auto simp: lex_exp_def)
    show ?thesis
    proof (cases "g = CHR ''+'' \<or> g = CHR ''-''")
      case sign: True
      with Cons True s' assms(1) obtain ds where ds: "lex_digits s'' = Some (ds, r)"
        and x: "x = c # g # ds"
        by (auto simp: lex_exp_def cons_to_def split: option.splits)
      from lex_digits_append[OF ds assms(2)] Cons True s' sign x show ?thesis
        by (auto simp: lex_exp_def cons_to_def)
    next
      case nosign: False
      with Cons True s' assms(1) obtain ds where ds: "lex_digits s' = Some (ds, r)"
        and x: "x = c # ds"
        by (auto simp: lex_exp_def cons_to_def split: option.splits)
      from lex_digits_append[OF ds assms(2)] Cons True s' nosign x show ?thesis
        by (auto simp: lex_exp_def cons_to_def)
    qed
  qed
qed

lemma delimited_stops:
  assumes "delimited rest"
  shows "rest = [] \<or> \<not> is_digit (hd rest)" and "rest = [] \<or> hd rest \<noteq> CHR ''.''"
    and "rest = [] \<or> (hd rest \<noteq> CHR ''e'' \<and> hd rest \<noteq> CHR ''E'')"
  using assms by (cases rest; auto simp: delimited_def is_digit_def)+

lemma finite_number_head:
  assumes "finite_number n"
  shows "\<exists>c n'. n = c # n' \<and> (c = CHR ''-'' \<or> is_digit c)"
proof (cases n)
  case Nil
  with assms show ?thesis
    by (simp add: finite_number_def lex_number_def lex_sign_def lex_int_def)
next
  case (Cons c n')
  show ?thesis
  proof (cases "c = CHR ''-''")
    case True
    with Cons show ?thesis by simp
  next
    case False
    with Cons assms obtain i s1 where "lex_int (c # n') = Some (i, s1)"
      by (auto simp: finite_number_def lex_number_def lex_sign_def split: option.splits)
    then have "is_digit c"
      by (auto simp: lex_int_def lex_digits_def is_digit_def split: if_splits)
    with Cons show ?thesis by simp
  qed
qed

lemma lex_number_append:
  assumes "finite_number n" and "delimited rest"
  shows "lex_number (n @ rest) = Some (n, rest)"
proof -
  from finite_number_head[OF assms(1)] obtain c n' where n: "n = c # n'" by blast
  have sign: "fst (lex_sign (n @ rest)) = fst (lex_sign n)"
    "snd (lex_sign (n @ rest)) = snd (lex_sign n) @ rest"
    by (simp_all add: n lex_sign_def)
  from assms(1) obtain i s1 f s2 e where i: "lex_int (snd (lex_sign n)) = Some (i, s1)"
    and f: "lex_frac s1 = Some (f, s2)" and e: "lex_exp s2 = Some (e, [])"
    and all: "fst (lex_sign n) @ i @ f @ e = n"
    by (auto simp: finite_number_def lex_number_def split: option.splits)
  note stop = delimited_stops[OF assms(2)]
  from lex_int_append[OF i stop(1)] lex_frac_append[OF f stop(1,2)]
    lex_exp_append[OF e stop(1,3)] sign all
  show ?thesis
    by (simp add: lex_number_def)
qed

lemma parse_value_number:
  assumes "finite_number n" and "delimited rest"
  shows "parse_value (n @ rest) = Some (JNum n, rest)"
proof -
  from finite_number_head[OF assms(1)] obtain c n' where n: "n = c # n'"
    and c: "c = CHR ''-'' \<or> is_digit c"
    by blast
  from c have "\<not> is_ws c" and "c \<noteq> CHR ''[''" and "c \<noteq> CHR ''{''" and "c \<noteq> CHR 0x22"
    and "c \<noteq> CHR ''t''" and "c \<noteq> CHR ''f''" and "c \<noteq> CHR ''n''"
    by (auto simp: is_ws_def is_digit_def)
  then have "parse_value (n @ rest) = with_value JNum (lex_number (n @ rest))"
    by (subst parse_value.simps) (simp add: n skip_ws_def)
  with lex_number_append[OF assms] show ?thesis
    by (simp add: with_value_def)
qed

subsection \<open>Reading back what \<open>JSON_stringify\<close> wrote\<close>

text \<open>
  \<open>JSON_parse\<close> accepts every text that \<open>SerializeJSONProperty\<close> writes and
  returns the value it was written for (\<open>read_back\<close>); an array of strings comes back
  as it was.
\<close>

lemma parse_value_null: "parse_value (''null'' @ rest) = Some (JNull, rest)"
  by (subst parse_value.simps) (simp add: skip_ws_def is_ws_def literal_def)

lemma parse_value_true: "parse_value (''true'' @ rest) = Some (JBool True, rest)"
  by (subst parse_value.simps) (simp add: skip_ws_def is_ws_def literal_def)

lemma parse_value_false: "parse_value (''false'' @ rest) = Some (JBool False, rest)"
  by (subst parse_value.simps) (simp add: skip_ws_def is_ws_def literal_def)

lemma Serialize_head:
  "\<exists>c t. SerializeJSONProperty v = c # t \<and> \<not> is_ws c \<and> c \<noteq> CHR '']'' \<and> c \<noteq> CHR ''}''"
proof (cases v)
  case (JNum n)
  show ?thesis
  proof (cases "finite_number n")
    case True
    from finite_number_head[OF this] obtain c n' where "n = c # n'"
      and "c = CHR ''-'' \<or> is_digit c"
      by blast
    with True JNum show ?thesis
      by (auto simp: is_ws_def is_digit_def)
  next
    case False
    with JNum show ?thesis by (simp add: is_ws_def)
  qed
qed (auto simp: is_ws_def QuoteJSONString_def)

lemma join_comma_head:
  assumes "\<exists>c t. x = c # t \<and> P c"
  shows "\<exists>c t. join_comma (x # xs) @ rest = c # t \<and> P c"
  using assms by (cases xs) auto

lemma parse_elements_written:
  assumes "\<And>x rest. x \<in> set (v # vs) \<Longrightarrow> delimited rest \<Longrightarrow>
      parse_value (SerializeJSONProperty x @ rest) = Some (read_back x, rest)"
  shows "parse_elements (join_comma (map SerializeJSONProperty (v # vs)) @ CHR '']'' # rest)
     = Some (map read_back (v # vs), rest)"
  using assms
proof (induction vs arbitrary: v)
  case Nil
  have "parse_value (SerializeJSONProperty v @ CHR '']'' # rest) = Some (read_back v, CHR '']'' # rest)"
    by (rule Nil) (simp_all add: delimited_def)
  then have "parse_elements (SerializeJSONProperty v @ CHR '']'' # rest) = Some ([read_back v], rest)"
    by (subst parse_elements_unguarded) (simp add: skip_ws_def is_ws_def)
  then show ?case by simp
next
  case (Cons w ws)
  let ?tail = "join_comma (map SerializeJSONProperty (w # ws)) @ CHR '']'' # rest"
  have "parse_value (SerializeJSONProperty v @ CHR '','' # ?tail) = Some (read_back v, CHR '','' # ?tail)"
    by (rule Cons.prems) (simp_all add: delimited_def)
  then have "parse_elements (SerializeJSONProperty v @ CHR '','' # ?tail)
      = cons_to (read_back v) (parse_elements ?tail)"
    by (subst parse_elements_unguarded) (simp add: skip_ws_def is_ws_def)
  moreover have "parse_elements ?tail = Some (map read_back (w # ws), rest)"
    by (rule Cons.IH) (rule Cons.prems, simp_all)
  ultimately show ?case
    by (simp add: cons_to_def)
qed

lemma parse_members_written:
  assumes "\<And>x rest. x \<in> set (v # map snd ms) \<Longrightarrow> delimited rest \<Longrightarrow>
      parse_value (SerializeJSONProperty x @ rest) = Some (read_back x, rest)"
  shows "parse_members
      (join_comma (map (\<lambda>(k, v). QuoteJSONString k @ CHR '':'' # SerializeJSONProperty v) ((k, v) # ms))
         @ CHR ''}'' # rest)
     = Some (map (\<lambda>(k, v). (k, read_back v)) ((k, v) # ms), rest)"
  using assms
proof (induction ms arbitrary: k v)
  case Nil
  have "parse_value (SerializeJSONProperty v @ CHR ''}'' # rest) = Some (read_back v, CHR ''}'' # rest)"
    by (rule Nil) (simp_all add: delimited_def)
  then have "parse_members (QuoteJSONString k @ CHR '':'' # SerializeJSONProperty v @ CHR ''}'' # rest)
      = Some ([(k, read_back v)], rest)"
    by (subst parse_members_unguarded)
       (simp add: QuoteJSONString_def parse_chars_quoted skip_ws_def is_ws_def)
  then show ?case by simp
next
  case (Cons m ms)
  obtain k' v' where m: "m = (k', v')" by (cases m)
  let ?tail = "join_comma (map (\<lambda>(k, v). QuoteJSONString k @ CHR '':'' # SerializeJSONProperty v)
      ((k', v') # ms)) @ CHR ''}'' # rest"
  have "parse_value (SerializeJSONProperty v @ CHR '','' # ?tail) = Some (read_back v, CHR '','' # ?tail)"
    by (rule Cons.prems) (simp_all add: delimited_def)
  then have "parse_members (QuoteJSONString k @ CHR '':'' # SerializeJSONProperty v @ CHR '','' # ?tail)
      = cons_to (k, read_back v) (parse_members ?tail)"
    by (subst parse_members_unguarded)
       (simp add: QuoteJSONString_def parse_chars_quoted skip_ws_def is_ws_def)
  moreover have "parse_members ?tail = Some (map (\<lambda>(k, v). (k, read_back v)) ((k', v') # ms), rest)"
    by (rule Cons.IH) (rule Cons.prems, simp_all add: m)
  ultimately show ?case
    by (simp add: cons_to_def m)
qed

lemma parse_value_written:
  "delimited rest \<Longrightarrow> parse_value (SerializeJSONProperty v @ rest) = Some (read_back v, rest)"
proof (induction v arbitrary: rest)
  case JNull
  show ?case using parse_value_null by simp
next
  case (JBool b)
  show ?case using parse_value_true parse_value_false by (cases b) simp_all
next
  case (JNum n)
  then show ?case
    using parse_value_number parse_value_null by (cases "finite_number n") simp_all
next
  case (JStr s)
  show ?case by (simp add: parse_value_string)
next
  case (JArr vs)
  show ?case
  proof (cases vs)
    case Nil
    have "parse_value (CHR ''['' # CHR '']'' # rest) = Some (JArr [], rest)"
      by (subst parse_value.simps) (simp add: skip_ws_def is_ws_def)
    with Nil show ?thesis by simp
  next
    case (Cons x xs)
    define body where "body = join_comma (map SerializeJSONProperty (x # xs)) @ CHR '']'' # rest"
    obtain c t where t: "body = c # t" and c: "\<not> is_ws c" "c \<noteq> CHR '']''"
      unfolding body_def
      using join_comma_head[OF Serialize_head, of x "map SerializeJSONProperty xs" "CHR '']'' # rest"]
      by auto
    have elems: "parse_elements body = Some (map read_back (x # xs), rest)"
      unfolding body_def by (rule parse_elements_written) (rule JArr.IH, simp_all add: Cons)
    have s1: "skip_ws (CHR ''['' # c # t) = CHR ''['' # c # t"
      by (simp add: skip_ws_def is_ws_def)
    have s2: "skip_ws (c # t) = c # t"
      by (simp add: skip_ws_def c)
    have "parse_value (CHR ''['' # body) = with_value JArr (parse_elements body)"
      unfolding t by (subst parse_value.simps) (simp add: s1 s2 c)
    with elems have "parse_value (CHR ''['' # body) = Some (JArr (map read_back (x # xs)), rest)"
      by (simp add: with_value_def)
    then show ?thesis
      by (simp add: Cons body_def)
  qed
next
  case (JObj ms)
  show ?case
  proof (cases ms)
    case Nil
    have "parse_value (CHR ''{'' # CHR ''}'' # rest) = Some (JObj [], rest)"
      by (subst parse_value.simps) (simp add: skip_ws_def is_ws_def)
    with Nil show ?thesis by simp
  next
    case (Cons m ms')
    obtain k v where m: "m = (k, v)" by (cases m)
    define body where "body =
      join_comma (map (\<lambda>(k, v). QuoteJSONString k @ CHR '':'' # SerializeJSONProperty v) ((k, v) # ms'))
        @ CHR ''}'' # rest"
    have "\<exists>c t. QuoteJSONString k @ CHR '':'' # SerializeJSONProperty v = c # t \<and> c = CHR 0x22"
      by (simp add: QuoteJSONString_def)
    from join_comma_head[OF this] obtain t where t: "body = CHR 0x22 # t"
      unfolding body_def by fastforce
    have members: "parse_members body = Some (map (\<lambda>(k, v). (k, read_back v)) ((k, v) # ms'), rest)"
      unfolding body_def
    proof (rule parse_members_written)
      fix x rest' assume x: "x \<in> set (v # map snd ms')" and d: "delimited rest'"
      then have "\<exists>k0. (k0, x) \<in> set ms"
        unfolding Cons m by force
      then obtain k0 where "(k0, x) \<in> set ms" ..
      then show "parse_value (SerializeJSONProperty x @ rest') = Some (read_back x, rest')"
        using JObj.IH[of "(k0, x)" x rest'] d by simp
    qed
    have "parse_value (CHR ''{'' # body) = with_value JObj (parse_members body)"
      by (subst parse_value.simps) (simp add: t skip_ws_def is_ws_def)
    with members have "parse_value (CHR ''{'' # body)
        = Some (JObj (map (\<lambda>(k, v). (k, read_back v)) ((k, v) # ms')), rest)"
      by (simp add: with_value_def)
    then show ?thesis
      by (simp add: Cons m body_def)
  qed
qed

lemma JSON_parse_written: "JSON_parse (SerializeJSONProperty v) = Some (read_back v)"
  using parse_value_written[of "[]" v] by (simp add: JSON_parse_def skip_ws_def delimited_def)

lemma read_back_strings: "list_all is_JStr vs \<Longrightarrow> map read_back vs = vs"
proof (induction vs)
  case Nil
  show ?case by simp
next
  case (Cons v vs)
  then show ?case by (cases v) simp_all
qed

lemma read_back_sequence: "is_sequence v \<Longrightarrow> as_json (map_option read_back v) = as_json v"
proof (cases v)
  case None
  then show ?thesis by simp
next
  case (Some x)
  assume "is_sequence v"
  with Some show ?thesis
    by (cases x) (simp_all add: is_sequence_def as_json_def read_back_strings)
qed

lemma JSON_parse_null: "JSON_parse ''null'' = Some JNull"
  using JSON_parse_written[of JNull] by simp

lemma JSON_parse_column:
  "JSON_parse (column_text (JSON_stringify v)) = Some (as_json (map_option read_back v))"
  by (cases v)
     (simp_all add: JSON_stringify_def column_text_def as_json_def JSON_parse_null JSON_parse_written)
subsection \<open>The statements\<close>

lemma select_inserted:
  "i \<notin> set (map row_id db) \<Longrightarrow> row_id r = i \<Longrightarrow> sql_select_by_id (db @ [r]) i = Some r"
  by (induction db) (auto simp: sql_select_by_id_def)

lemma select_absent:
  "i \<notin> set (map row_id db) \<Longrightarrow> sql_select_by_id db i = None"
  by (induction db) (auto simp: sql_select_by_id_def)

lemma select_present:
  "distinct (map row_id db) \<Longrightarrow> r \<in> set db \<Longrightarrow> sql_select_by_id db (row_id r) = Some r"
  by (induction db) (auto simp: sql_select_by_id_def)

lemma select_deleted: "sql_select_by_id (sql_delete db i) i = None"
  by (induction db) (simp_all add: sql_select_by_id_def sql_delete_def)

lemma update_absent: "i \<notin> set (map row_id db) \<Longrightarrow> sql_update_title db t i = db"
  by (induction db) (auto simp: sql_update_title_def)

text \<open>
  \<^verbatim>\<open>ORDER BY created_at DESC\<close> gives a permutation of the table by decreasing
  \<^verbatim>\<open>created_at\<close>; on a table whose rows were inserted at strictly increasing seconds
  it is the reverse of the order of insertion.
\<close>

lemma select_all_sorted:
  "sorted_wrt (\<lambda>a b. row_created_at b \<le> row_created_at a) (sql_select_all db) \<and>
   set (sql_select_all db) = set db \<and> length (sql_select_all db) = length db"
proof -
  have "sorted (map (\<lambda>r. - int (row_created_at r)) (sql_select_all db))"
    unfolding sql_select_all_def by (rule sorted_sort_key)
  then have "sorted_wrt (\<lambda>a b. row_created_at b \<le> row_created_at a) (sql_select_all db)"
    by (simp add: sorted_wrt_map)
  then show ?thesis
    by (simp add: sql_select_all_def)
qed

lemma insort_key_greatest:
  "\<forall>y\<in>set ys. f y < f x \<Longrightarrow> insort_key f x ys = ys @ [x]"
  by (induction ys) auto

lemma select_all_strict:
  "sorted_wrt (<) (map row_created_at db) \<Longrightarrow> sql_select_all db = rev db"
proof (induction db)
  case Nil
  show ?case by (simp add: sql_select_all_def)
next
  case (Cons r db)
  then have older: "\<And>y. y \<in> set db \<Longrightarrow> row_created_at r < row_created_at y"
    and rest: "sql_select_all db = rev db"
    by auto
  have "insort_key (\<lambda>r. - int (row_created_at r)) r (rev db) = rev db @ [r]"
    by (rule insort_key_greatest) (simp add: older)
  with rest show ?case
    by (simp add: sql_select_all_def)
qed

subsection \<open>The handlers\<close>

lemma post_fresh:
  assumes "uuid \<notin> set (map row_id db)"
  shows "post_itineraries db uuid now b =
     Inr (uuid, db @ [\<lparr>row_id = uuid,
            row_title = title_or_default (req_title b) (req_destination b),
            row_destination = req_destination b, row_duration = req_duration b,
            row_budget = req_budget b, row_type = req_type b,
            row_interests = JSON_stringify (req_interests b),
            row_activities = JSON_stringify (req_activities b),
            row_content = req_content b, row_created_at = now\<rparr>])"
  using assms by (simp add: post_itineraries_def sql_insert_def)

lemma post_Inr:
  "post_itineraries db uuid now b = Inr (i, db') \<Longrightarrow> i = uuid \<and> uuid \<notin> set (map row_id db)"
  by (auto simp: post_itineraries_def sql_insert_def split: if_splits)

lemma decode_written_row:
  "decode_row \<lparr>row_id = i, row_title = t, row_destination = d, row_duration = n,
               row_budget = b, row_type = ty, row_interests = JSON_stringify ins,
               row_activities = JSON_stringify acts, row_content = c, row_created_at = now\<rparr>
     = Inr \<lparr>trip_id = i, trip_title = t, trip_destination = d, trip_duration = n,
            trip_budget = b, trip_type = ty,
            trip_interests = as_json (map_option read_back ins),
            trip_activities = as_json (map_option read_back acts),
            trip_content = c, trip_created_at = now\<rparr>"
  by (simp add: decode_row_def JSON_parse_column)

lemma decode_written:
  assumes "row_interests r = JSON_stringify v" and "row_activities r = JSON_stringify w"
  shows "\<exists>t. decode_row r = Inr t \<and> trip_id t = row_id r"
  using assms by (simp add: decode_row_def JSON_parse_column)


lemma get_itineraries_empty: "get_itineraries [] = Inr []"
  by (simp add: get_itineraries_def sql_select_all_def)

subsection \<open>Tables after a sequence of requests\<close>


lemma apply_request_written:
  assumes "\<And>r. r \<in> set db \<Longrightarrow>
     (\<exists>v. row_interests r = JSON_stringify v) \<and> (\<exists>w. row_activities r = JSON_stringify w)"
    and "r \<in> set (apply_request db q)"
  shows "(\<exists>v. row_interests r = JSON_stringify v) \<and> (\<exists>w. row_activities r = JSON_stringify w)"
proof (cases q)
  case (Create uuid now b)
  show ?thesis
  proof (cases "uuid \<in> set (map row_id db)")
    case True
    with Create assms(2) have "r \<in> set db"
      by (simp add: post_itineraries_def sql_insert_def)
    then show ?thesis by (rule assms(1))
  next
    case False
    with Create assms(2) consider "r \<in> set db"
      | "row_interests r = JSON_stringify (req_interests b)"
        "row_activities r = JSON_stringify (req_activities b)"
      by (auto simp: post_fresh)
    then show ?thesis
    proof cases
      case 1
      then show ?thesis by (rule assms(1))
    next
      case 2
      then show ?thesis by blast
    qed
  qed
next
  case (Rename i t)
  with assms(2) obtain r0 where r0: "r0 \<in> set db"
    and r: "r = r0 \<or> r = r0\<lparr>row_title := t\<rparr>"
    by (auto simp: patch_itinerary_def sql_update_title_def split: if_splits)
  from assms(1)[OF r0] r show ?thesis by auto
next
  case (Delete i)
  with assms(2) have "r \<in> set db"
    by (simp add: delete_itinerary_def sql_delete_def)
  then show ?thesis by (rule assms(1))
qed

lemma foldl_written:
  assumes "\<And>r. r \<in> set db \<Longrightarrow>
     (\<exists>v. row_interests r = JSON_stringify v) \<and> (\<exists>w. row_activities r = JSON_stringify w)"
    and "r \<in> set (foldl apply_request db reqs)"
  shows "(\<exists>v. row_interests r = JSON_stringify v) \<and> (\<exists>w. row_activities r = JSON_stringify w)"
  using assms
proof (induction reqs arbitrary: db)
  case Nil
  then show ?case by simp
next
  case (Cons q reqs)
  show ?case
  proof (rule Cons.IH[of "apply_request db q"])
    fix r' assume "r' \<in> set (apply_request db q)"
    with Cons.prems(1) show "(\<exists>v. row_interests r' = JSON_stringify v) \<and>
        (\<exists>w. row_activities r' = JSON_stringify w)"
      by (rule apply_request_written)
  next
    from Cons.prems(2) show "r \<in> set (foldl apply_request (apply_request db q) reqs)"
      by simp
  qed
qed

lemma run_written:
  "r \<in> set (run reqs) \<Longrightarrow>
     (\<exists>v. row_interests r = JSON_stringify v) \<and> (\<exists>w. row_activities r = JSON_stringify w)"
  unfolding run_def by (rule foldl_written[of "[]"]) simp_all





lemma apply_request_distinct:
  "distinct (map row_id db) \<Longrightarrow> distinct (map row_id (apply_request db q))"
proof (cases q)
  case (Create uuid now b)
  assume "distinct (map row_id db)"
  with Create show ?thesis
    by (cases "uuid \<in> set (map row_id db)")
       (simp_all add: post_fresh, simp add: post_itineraries_def sql_insert_def)
next
  case (Rename i t)
  have "map row_id (sql_update_title db t i) = map row_id db"
    by (simp add: sql_update_title_def)
  moreover assume "distinct (map row_id db)"
  ultimately show ?thesis
    using Rename by (simp add: patch_itinerary_def)
next
  case (Delete i)
  assume "distinct (map row_id db)"
  with Delete show ?thesis
    by (simp add: delete_itinerary_def sql_delete_def distinct_map_filter)
qed

lemma run_distinct: "distinct (map row_id (run reqs))"
proof -
  have "distinct (map row_id db) \<Longrightarrow> distinct (map row_id (foldl apply_request db reqs))" for db
    by (induction reqs arbitrary: db) (simp_all add: apply_request_distinct)
  from this[of "[]"] show ?thesis
    by (simp add: run_def)
qed

text \<open>The tables of the examples.\<close>

lemma run_one:
  "run [Create ''id-1'' 7 tokyo] =
     [\<lparr>row_id = ''id-1'', row_title = Some ''Viaggio a Tokyo'', row_destination = Some ''Tokyo'',
       row_duration = Some 5, row_budget = Some ''medio'', row_type = Some ''cultural'',
       row_interests = JSON_stringify (Some (JArr [JStr ''Arte''])),
       row_activities = JSON_stringify (Some (JArr [JStr ''Musei''])),
       row_content = Some ''# Day 1'', row_created_at = 7\<rparr>]"
  by (simp add: run_def post_fresh tokyo_def title_or_default_def truthy_def default_title_def
        template_text_def)

lemma run_two:
  "run [Create ''id-a'' 100 trip_A, Create ''id-b'' 101 trip_B] =
     [\<lparr>row_id = ''id-a'', row_title = Some ''A'', row_destination = Some ''Tokyo'',
       row_duration = Some 5, row_budget = Some ''medio'', row_type = Some ''cultural'',
       row_interests = JSON_stringify (Some (JArr [JStr ''Arte''])),
       row_activities = JSON_stringify (Some (JArr [JStr ''Musei''])),
       row_content = Some ''# Day 1'', row_created_at = 100\<rparr>,
      \<lparr>row_id = ''id-b'', row_title = Some ''B'', row_destination = Some ''Tokyo'',
       row_duration = Some 5, row_budget = Some ''medio'', row_type = Some ''cultural'',
       row_interests = JSON_stringify (Some (JArr [JStr ''Arte''])),
       row_activities = JSON_stringify (Some (JArr [JStr ''Musei''])),
       row_content = Some ''# Day 1'', row_created_at = 101\<rparr>]"
  by (simp add: run_def post_fresh trip_A_def trip_B_def tokyo_def title_or_default_def truthy_def)

text \<open>
  Three itineraries created at three different seconds are listed newest first.
\<close>

lemma newest_first_on_distinct_seconds:
  assumes "ta < tb" and "tb < tc" and "distinct [ia, ib, ic]"
  shows "map_sum id (map trip_id)
           (get_itineraries (run [Create ia ta a, Create ib tb b, Create ic tc c]))
         = Inr [ic, ib, ia]"
proof -
  define row_of where "row_of i t x = \<lparr>row_id = i,
            row_title = title_or_default (req_title x) (req_destination x),
            row_destination = req_destination x, row_duration = req_duration x,
            row_budget = req_budget x, row_type = req_type x,
            row_interests = JSON_stringify (req_interests x),
            row_activities = JSON_stringify (req_activities x),
            row_content = req_content x, row_created_at = t\<rparr>" for i t and x :: body
  have db: "run [Create ia ta a, Create ib tb b, Create ic tc c]
      = [row_of ia ta a, row_of ib tb b, row_of ic tc c]"
  proof -
    from assms(3) have "ib \<noteq> ia" "ic \<noteq> ia" "ic \<noteq> ib"
      by auto
    then show ?thesis
      by (simp add: run_def post_fresh row_of_def)
  qed
  have "sql_select_all [row_of ia ta a, row_of ib tb b, row_of ic tc c]
      = rev [row_of ia ta a, row_of ib tb b, row_of ic tc c]"
    by (rule select_all_strict) (use assms(1,2) in \<open>simp add: row_of_def\<close>)
  then show ?thesis
    unfolding db get_itineraries_def
    by (simp add: row_of_def decode_written_row)
qed

section \<open>The claims of the specification\<close>

text \<open>
  C1, as the code has it: \<^verbatim>\<open>app.post\<close> does not validate its input. For every input,
  also one without \<^verbatim>\<open>destination\<close> or without \<^verbatim>\<open>content\<close>, it never fails with
  \<open>ValidationError\<close>; when the generated identifier is not in the table yet, it inserts
  one row, which holds \<^verbatim>\<open>NULL\<close> for each absent field, and replies with the identifier.
\<close>

theorem create_never_validates:
  "post_itineraries db uuid now b \<noteq> Inl ValidationError \<and>
   (uuid \<notin> set (map row_id db) \<longrightarrow>
      (\<exists>r. post_itineraries db uuid now b = Inr (uuid, db @ [r]) \<and> row_id r = uuid \<and>
           row_destination r = req_destination b \<and> row_content r = req_content b))"
  by (auto simp: post_itineraries_def sql_insert_def)

text \<open>
  An instance: the input of the scenario without its destination, on the empty table.
\<close>

theorem create_never_validates_witness:
  "''id-1'' \<notin> set (map row_id []) \<and> req_destination (tokyo\<lparr>req_destination := None\<rparr>) = None \<and>
   (\<exists>r. post_itineraries [] ''id-1'' 0 (tokyo\<lparr>req_destination := None\<rparr>) = Inr (''id-1'', [] @ [r]) \<and>
        row_id r = ''id-1'' \<and> row_destination r = None \<and> row_content r = Some ''# Day 1'')"
  using create_never_validates[of "[]" "''id-1''" 0 "tokyo\<lparr>req_destination := None\<rparr>"]
  by (simp add: tokyo_def)

text \<open>
  C1 as the specification states it fails on this input: the destination is absent, the
  request succeeds, and the row is in the table, with the title
  \<^verbatim>\<open>Viaggio a undefined\<close>.
\<close>

theorem create_without_destination:
  "req_destination (tokyo\<lparr>req_destination := None\<rparr>) = None \<and>
   post_itineraries [] ''id-1'' 0 (tokyo\<lparr>req_destination := None\<rparr>) =
     Inr (''id-1'',
       [\<lparr>row_id = ''id-1'', row_title = Some ''Viaggio a undefined'', row_destination = None,
         row_duration = Some 5, row_budget = Some ''medio'', row_type = Some ''cultural'',
         row_interests = Some (CHR ''['' # CHR 0x22 # ''Arte'' @ [CHR 0x22, CHR '']'']),
         row_activities = Some (CHR ''['' # CHR 0x22 # ''Musei'' @ [CHR 0x22, CHR '']'']),
         row_content = Some ''# Day 1'', row_created_at = 0\<rparr>])"
  by (simp add: tokyo_def post_itineraries_def sql_insert_def title_or_default_def truthy_def
        default_title_def template_text_def JSON_stringify_def QuoteJSONString_def
        quote_char_def)

text \<open>
  C2: for every finite sequence \<open>s\<close> of strings, the empty one included, parsing the
  column that holds the text \<^verbatim>\<open>JSON.stringify(s)\<close> gives the array of the strings of
  \<open>s\<close>, in the order of \<open>s\<close>.
\<close>

theorem decode_encode_sequence:
  "JSON_parse (column_text (JSON_stringify (Some (JArr (map JStr s))))) = Some (JArr (map JStr s))"
proof -
  have "list_all is_JStr (map JStr s)"
    by (simp add: list_all_iff)
  then have "map read_back (map JStr s) = map JStr s"
    by (rule read_back_strings)
  then show ?thesis
    by (simp add: JSON_parse_column as_json_def)
qed

text \<open>
  C3, as the code has it: for every valid create input, \<^verbatim>\<open>app.post\<close> followed by
  \<^verbatim>\<open>app.get\<close> on the returned identifier yields a record whose destination, duration,
  budget, type and content are the input's, whose interests and activities are the
  input's sequences of strings in their order (an absent field reads \<^verbatim>\<open>null\<close>),
  whose title is the input's when that is a non-empty string and
  \<^verbatim>\<open>Viaggio a ${destination}\<close> otherwise, whose identifier is the generated one and
  whose \<^verbatim>\<open>created_at\<close> is the time of the insertion.
\<close>

theorem create_then_get:
  assumes "valid_input b" and "post_itineraries db uuid now b = Inr (i, db')"
  shows "i = uuid \<and>
    (\<exists>t. get_itinerary db' i = Inr t \<and> trip_id t = uuid \<and> trip_created_at t = now \<and>
      trip_title t =
        (if req_title b = None \<or> req_title b = Some '''' then Some (default_title (req_destination b))
         else req_title b) \<and>
      trip_destination t = req_destination b \<and> trip_duration t = req_duration b \<and>
      trip_budget t = req_budget b \<and> trip_type t = req_type b \<and>
      (is_sequence (req_interests b) \<longrightarrow> trip_interests t = as_json (req_interests b)) \<and>
      (is_sequence (req_activities b) \<longrightarrow> trip_activities t = as_json (req_activities b)) \<and>
      trip_content t = req_content b)"
proof -
  from assms(2) have i: "i = uuid" and fresh: "uuid \<notin> set (map row_id db)"
    using post_Inr by blast+
  define r where "r = \<lparr>row_id = uuid,
            row_title = title_or_default (req_title b) (req_destination b),
            row_destination = req_destination b, row_duration = req_duration b,
            row_budget = req_budget b, row_type = req_type b,
            row_interests = JSON_stringify (req_interests b),
            row_activities = JSON_stringify (req_activities b),
            row_content = req_content b, row_created_at = now\<rparr>"
  from assms(2) fresh have db': "db' = db @ [r]"
    by (auto simp: post_fresh r_def)
  have "sql_select_by_id db' uuid = Some r"
    unfolding db' using fresh by (rule select_inserted) (simp add: r_def)
  then have got: "get_itinerary db' uuid = decode_row r"
    by (simp add: get_itinerary_def)
  have title: "title_or_default (req_title b) (req_destination b) =
      (if req_title b = None \<or> req_title b = Some '''' then Some (default_title (req_destination b))
       else req_title b)"
    by (cases "req_title b") (simp_all add: title_or_default_def truthy_def)
  show ?thesis
    unfolding i got r_def decode_written_row by (simp add: title read_back_sequence)
qed

text \<open>An instance: the scenario of the specification.\<close>

theorem create_then_get_witness:
  "valid_input tokyo \<and> sequence_fields tokyo \<and>
   post_itineraries [] ''id-1'' 7 tokyo = Inr (''id-1'', run [Create ''id-1'' 7 tokyo]) \<and>
   get_itinerary (run [Create ''id-1'' 7 tokyo]) ''id-1'' =
     Inr \<lparr>trip_id = ''id-1'', trip_title = Some ''Viaggio a Tokyo'',
          trip_destination = Some ''Tokyo'', trip_duration = Some 5,
          trip_budget = Some ''medio'', trip_type = Some ''cultural'',
          trip_interests = JArr [JStr ''Arte''], trip_activities = JArr [JStr ''Musei''],
          trip_content = Some ''# Day 1'', trip_created_at = 7\<rparr>"
proof -
  have v: "valid_input tokyo"
    by (simp add: valid_input_def tokyo_def)
  have q: "sequence_fields tokyo"
    by (simp add: sequence_fields_def is_sequence_def tokyo_def)
  then have q1: "is_sequence (req_interests tokyo)" and q2: "is_sequence (req_activities tokyo)"
    by (simp_all add: sequence_fields_def)
  have p: "post_itineraries [] ''id-1'' 7 tokyo = Inr (''id-1'', run [Create ''id-1'' 7 tokyo])"
    by (simp add: run_def post_fresh)
  from create_then_get[OF v p] q1 q2
  obtain t where "get_itinerary (run [Create ''id-1'' 7 tokyo]) ''id-1'' = Inr t"
    and "trip_id t = ''id-1''" and "trip_created_at t = 7"
    and "trip_title t = Some ''Viaggio a Tokyo''"
    and "trip_destination t = Some ''Tokyo''" and "trip_duration t = Some 5"
    and "trip_budget t = Some ''medio''" and "trip_type t = Some ''cultural''"
    and "trip_interests t = JArr [JStr ''Arte'']" and "trip_activities t = JArr [JStr ''Musei'']"
    and "trip_content t = Some ''# Day 1''"
    by (auto simp: tokyo_def as_json_def default_title_def template_text_def)
  then show ?thesis
    using v q p by (cases t) simp
qed

text \<open>
  C3 as the specification states it fails on a valid input of the request shape whose
  title is the empty string: the record that comes back has the title \<^verbatim>\<open>Viaggio a Tokyo\<close>, not the
  input's.
\<close>

theorem empty_title_not_returned:
  "valid_input (tokyo\<lparr>req_title := Some ''''\<rparr>) \<and>
   sequence_fields (tokyo\<lparr>req_title := Some ''''\<rparr>) \<and>
   post_itineraries [] ''id-1'' 7 (tokyo\<lparr>req_title := Some ''''\<rparr>)
     = Inr (''id-1'', run [Create ''id-1'' 7 (tokyo\<lparr>req_title := Some ''''\<rparr>)]) \<and>
   map_sum id trip_title
      (get_itinerary (run [Create ''id-1'' 7 (tokyo\<lparr>req_title := Some ''''\<rparr>)]) ''id-1'')
     = Inr (Some ''Viaggio a Tokyo'') \<and>
   req_title (tokyo\<lparr>req_title := Some ''''\<rparr>) = Some ''''"
  by (simp add: valid_input_def sequence_fields_def is_sequence_def tokyo_def run_def
        post_fresh get_itinerary_def sql_select_by_id_def decode_written_row
        title_or_default_def truthy_def default_title_def template_text_def)

text \<open>
  C4 fails in the code when itineraries are created within one second. The three requests
  below insert A, then B, then C, all at the second 100; \<^verbatim>\<open>created_at\<close> is the same in
  the three rows, \<^verbatim>\<open>ORDER BY created_at DESC\<close> does not order them, and the list comes
  back as A, B, C where the claim says C, B, A.
\<close>

theorem same_second_listing:
  "map_sum id (map trip_title)
     (get_itineraries
        (run [Create ''id-a'' 100 trip_A, Create ''id-b'' 100 trip_B, Create ''id-c'' 100 trip_C]))
   = Inr [Some ''A'', Some ''B'', Some ''C'']"
proof -
  have db: "run [Create ''id-a'' 100 trip_A, Create ''id-b'' 100 trip_B, Create ''id-c'' 100 trip_C] =
     [\<lparr>row_id = ''id-a'', row_title = Some ''A'', row_destination = Some ''Tokyo'',
       row_duration = Some 5, row_budget = Some ''medio'', row_type = Some ''cultural'',
       row_interests = JSON_stringify (Some (JArr [JStr ''Arte''])),
       row_activities = JSON_stringify (Some (JArr [JStr ''Musei''])),
       row_content = Some ''# Day 1'', row_created_at = 100\<rparr>,
      \<lparr>row_id = ''id-b'', row_title = Some ''B'', row_destination = Some ''Tokyo'',
       row_duration = Some 5, row_budget = Some ''medio'', row_type = Some ''cultural'',
       row_interests = JSON_stringify (Some (JArr [JStr ''Arte''])),
       row_activities = JSON_stringify (Some (JArr [JStr ''Musei''])),
       row_content = Some ''# Day 1'', row_created_at = 100\<rparr>,
      \<lparr>row_id = ''id-c'', row_title = Some ''C'', row_destination = Some ''Tokyo'',
       row_duration = Some 5, row_budget = Some ''medio'', row_type = Some ''cultural'',
       row_interests = JSON_stringify (Some (JArr [JStr ''Arte''])),
       row_activities = JSON_stringify (Some (JArr [JStr ''Musei''])),
       row_content = Some ''# Day 1'', row_created_at = 100\<rparr>]"
    by (simp add: run_def post_fresh trip_A_def trip_B_def trip_C_def tokyo_def
          title_or_default_def truthy_def)
  show ?thesis
    unfolding db by (simp add: get_itineraries_def sql_select_all_def decode_written_row)
qed

text \<open>
  C5: the title that \<^verbatim>\<open>app.post\<close> stores is \<^verbatim>\<open>Viaggio a ${destination}\<close> when the
  title of the input is absent or the empty string, and the title of the input otherwise.
\<close>

theorem stored_title:
  assumes "post_itineraries db uuid now b = Inr (i, db')"
  shows "\<exists>r. sql_select_by_id db' i = Some r \<and>
    row_title r =
      (if req_title b = None \<or> req_title b = Some ''''
       then Some (''Viaggio a '' @ template_text (req_destination b))
       else req_title b)"
proof -
  from assms have i: "i = uuid" and fresh: "uuid \<notin> set (map row_id db)"
    using post_Inr by blast+
  define r where "r = \<lparr>row_id = uuid,
            row_title = title_or_default (req_title b) (req_destination b),
            row_destination = req_destination b, row_duration = req_duration b,
            row_budget = req_budget b, row_type = req_type b,
            row_interests = JSON_stringify (req_interests b),
            row_activities = JSON_stringify (req_activities b),
            row_content = req_content b, row_created_at = now\<rparr>"
  from assms fresh have db': "db' = db @ [r]"
    by (auto simp: post_fresh r_def)
  have sel: "sql_select_by_id db' i = Some r"
    unfolding db' i using fresh by (rule select_inserted) (simp add: r_def)
  have "row_title r =
      (if req_title b = None \<or> req_title b = Some ''''
       then Some (''Viaggio a '' @ template_text (req_destination b))
       else req_title b)"
    by (cases "req_title b")
       (simp_all add: r_def title_or_default_def truthy_def default_title_def)
  with sel show ?thesis by blast
qed

text \<open>Two instances: the scenario, which has no title, and an input with the title A.\<close>

theorem stored_title_witness:
  "post_itineraries [] ''id-1'' 7 tokyo = Inr (''id-1'', run [Create ''id-1'' 7 tokyo]) \<and>
   map_option row_title (sql_select_by_id (run [Create ''id-1'' 7 tokyo]) ''id-1'')
     = Some (Some ''Viaggio a Tokyo'') \<and>
   post_itineraries [] ''id-2'' 7 trip_A = Inr (''id-2'', run [Create ''id-2'' 7 trip_A]) \<and>
   map_option row_title (sql_select_by_id (run [Create ''id-2'' 7 trip_A]) ''id-2'')
     = Some (Some ''A'')"
proof -
  have p: "post_itineraries [] ''id-1'' 7 tokyo = Inr (''id-1'', run [Create ''id-1'' 7 tokyo])"
    by (simp add: run_def post_fresh)
  have q: "post_itineraries [] ''id-2'' 7 trip_A = Inr (''id-2'', run [Create ''id-2'' 7 trip_A])"
    by (simp add: run_def post_fresh)
  from stored_title[OF p]
  have 1: "map_option row_title (sql_select_by_id (run [Create ''id-1'' 7 tokyo]) ''id-1'')
     = Some (Some ''Viaggio a Tokyo'')"
    by (auto simp: tokyo_def template_text_def)
  from stored_title[OF q]
  have 2: "map_option row_title (sql_select_by_id (run [Create ''id-2'' 7 trip_A]) ''id-2'')
     = Some (Some ''A'')"
    by (auto simp: trip_A_def tokyo_def)
  from p q 1 2 show ?thesis by blast
qed

text \<open>
  C6: for every table and identifier, \<^verbatim>\<open>app.get\<close> after \<^verbatim>\<open>app.delete\<close> of the
  identifier replies not found; \<^verbatim>\<open>app.delete\<close> reports success, and so does a second
  \<^verbatim>\<open>app.delete\<close> of the identifier, which changes nothing.
\<close>

theorem delete_then_get:
  "get_itinerary (snd (delete_itinerary db i)) i = Inl NotFound \<and>
   fst (delete_itinerary db i) = True \<and>
   fst (delete_itinerary (snd (delete_itinerary db i)) i) = True \<and>
   snd (delete_itinerary (snd (delete_itinerary db i)) i) = snd (delete_itinerary db i)"
proof -
  have idem: "sql_delete (sql_delete db i) i = sql_delete db i"
    by (simp add: sql_delete_def)
  show ?thesis
    by (simp add: delete_itinerary_def get_itinerary_def select_deleted idem)
qed

text \<open>
  C7: for an identifier that is not in the table, \<^verbatim>\<open>app.patch\<close> reports success and
  leaves the table as it was, so the list is the same as before, of the same length.
\<close>

theorem rename_absent:
  assumes "i \<notin> set (map row_id db)"
  shows "patch_itinerary db i t = (True, db) \<and>
    get_itineraries (snd (patch_itinerary db i t)) = get_itineraries db \<and>
    length (sql_select_all (snd (patch_itinerary db i t))) = length (sql_select_all db)"
  using assms by (simp add: patch_itinerary_def update_absent)

text \<open>An instance: renaming \<^verbatim>\<open>id-2\<close> in a table that holds \<^verbatim>\<open>id-1\<close> only.\<close>

theorem rename_absent_witness:
  "''id-2'' \<notin> set (map row_id (run [Create ''id-1'' 7 tokyo])) \<and>
   patch_itinerary (run [Create ''id-1'' 7 tokyo]) ''id-2'' (Some ''New'')
     = (True, run [Create ''id-1'' 7 tokyo]) \<and>
   length (sql_select_all (snd (patch_itinerary (run [Create ''id-1'' 7 tokyo]) ''id-2'' (Some ''New'')))) = 1"
proof -
  have a: "''id-2'' \<notin> set (map row_id (run [Create ''id-1'' 7 tokyo]))"
    by (simp add: run_def post_fresh)
  have "length (sql_select_all (run [Create ''id-1'' 7 tokyo])) = 1"
    by (simp add: run_def post_fresh sql_select_all_def)
  with rename_absent[OF a, of "Some ''New''"] a show ?thesis
    by simp
qed

text \<open>
  C8: \<^verbatim>\<open>app.patch\<close> keeps the number and the order of the rows. A row with another
  identifier is unchanged; in a row with the identifier the title is the new one and every
  other column is unchanged.
\<close>

theorem rename_changes_title_only:
  assumes "k < length db"
  shows "length (snd (patch_itinerary db i t)) = length db \<and>
    (row_id (db ! k) \<noteq> i \<longrightarrow> snd (patch_itinerary db i t) ! k = db ! k) \<and>
    (row_id (db ! k) = i \<longrightarrow>
       row_title (snd (patch_itinerary db i t) ! k) = t \<and>
       row_id (snd (patch_itinerary db i t) ! k) = row_id (db ! k) \<and>
       row_destination (snd (patch_itinerary db i t) ! k) = row_destination (db ! k) \<and>
       row_duration (snd (patch_itinerary db i t) ! k) = row_duration (db ! k) \<and>
       row_budget (snd (patch_itinerary db i t) ! k) = row_budget (db ! k) \<and>
       row_type (snd (patch_itinerary db i t) ! k) = row_type (db ! k) \<and>
       row_interests (snd (patch_itinerary db i t) ! k) = row_interests (db ! k) \<and>
       row_activities (snd (patch_itinerary db i t) ! k) = row_activities (db ! k) \<and>
       row_content (snd (patch_itinerary db i t) ! k) = row_content (db ! k) \<and>
       row_created_at (snd (patch_itinerary db i t) ! k) = row_created_at (db ! k))"
  using assms by (simp add: patch_itinerary_def sql_update_title_def)

text \<open>An instance: renaming the first of two itineraries.\<close>

theorem rename_changes_title_only_witness:
  "0 < length (run [Create ''id-a'' 100 trip_A, Create ''id-b'' 101 trip_B]) \<and>
   1 < length (run [Create ''id-a'' 100 trip_A, Create ''id-b'' 101 trip_B]) \<and>
   row_id (run [Create ''id-a'' 100 trip_A, Create ''id-b'' 101 trip_B] ! 0) = ''id-a'' \<and>
   row_id (run [Create ''id-a'' 100 trip_A, Create ''id-b'' 101 trip_B] ! 1) \<noteq> ''id-a'' \<and>
   row_title (snd (patch_itinerary (run [Create ''id-a'' 100 trip_A, Create ''id-b'' 101 trip_B])
       ''id-a'' (Some ''New'')) ! 0) = Some ''New'' \<and>
   row_destination (snd (patch_itinerary (run [Create ''id-a'' 100 trip_A, Create ''id-b'' 101 trip_B])
       ''id-a'' (Some ''New'')) ! 0) = Some ''Tokyo'' \<and>
   row_created_at (snd (patch_itinerary (run [Create ''id-a'' 100 trip_A, Create ''id-b'' 101 trip_B])
       ''id-a'' (Some ''New'')) ! 0) = 100 \<and>
   snd (patch_itinerary (run [Create ''id-a'' 100 trip_A, Create ''id-b'' 101 trip_B])
       ''id-a'' (Some ''New'')) ! 1
     = run [Create ''id-a'' 100 trip_A, Create ''id-b'' 101 trip_B] ! 1"
proof -
  let ?db = "run [Create ''id-a'' 100 trip_A, Create ''id-b'' 101 trip_B]"
  have k0: "0 < length ?db" and k1: "1 < length ?db"
    by (simp_all add: run_two)
  have a: "row_id (?db ! 0) = ''id-a''" and b: "row_id (?db ! 1) \<noteq> ''id-a''"
    by (simp_all add: run_two)
  have d: "row_destination (?db ! 0) = Some ''Tokyo''" and c: "row_created_at (?db ! 0) = 100"
    by (simp_all add: run_two)
  from rename_changes_title_only[OF k0, of "''id-a''" "Some ''New''"]
       rename_changes_title_only[OF k1, of "''id-a''" "Some ''New''"] k0 k1 a b c d
  show ?thesis by simp
qed

text \<open>
  C9: \<^verbatim>\<open>app.get\<close> of an identifier that is not in the table replies not found, which is
  no failure of the store. When a row has the identifier and its two sequence columns
  parse, the reply is the row with the two parsed values. In a table that the requests
  built, an identifier that is in the table always gets its record.
\<close>

theorem get_by_id:
  "(i \<notin> set (map row_id db) \<longrightarrow> get_itinerary db i = Inl NotFound) \<and>
   (distinct (map row_id db) \<and> r \<in> set db \<and> row_id r = i \<and>
    JSON_parse (column_text (row_interests r)) = Some a \<and>
    JSON_parse (column_text (row_activities r)) = Some c \<longrightarrow>
      get_itinerary db i =
        Inr \<lparr>trip_id = i, trip_title = row_title r, trip_destination = row_destination r,
             trip_duration = row_duration r, trip_budget = row_budget r,
             trip_type = row_type r, trip_interests = a, trip_activities = c,
             trip_content = row_content r, trip_created_at = row_created_at r\<rparr>) \<and>
   (i \<in> set (map row_id (run reqs)) \<longrightarrow>
      (\<exists>t. get_itinerary (run reqs) i = Inr t \<and> trip_id t = i))"
proof (intro conjI impI)
  assume "i \<notin> set (map row_id db)"
  then show "get_itinerary db i = Inl NotFound"
    by (simp add: get_itinerary_def select_absent)
next
  assume h: "distinct (map row_id db) \<and> r \<in> set db \<and> row_id r = i \<and>
    JSON_parse (column_text (row_interests r)) = Some a \<and>
    JSON_parse (column_text (row_activities r)) = Some c"
  then have "sql_select_by_id db i = Some r"
    using select_present[of db r] by auto
  with h show "get_itinerary db i =
        Inr \<lparr>trip_id = i, trip_title = row_title r, trip_destination = row_destination r,
             trip_duration = row_duration r, trip_budget = row_budget r,
             trip_type = row_type r, trip_interests = a, trip_activities = c,
             trip_content = row_content r, trip_created_at = row_created_at r\<rparr>"
    by (simp add: get_itinerary_def decode_row_def)
next
  assume "i \<in> set (map row_id (run reqs))"
  then obtain r' where r': "r' \<in> set (run reqs)" and i: "row_id r' = i"
    by auto
  have "sql_select_by_id (run reqs) (row_id r') = Some r'"
    using run_distinct r' by (rule select_present)
  moreover from run_written[OF r'] obtain t where "decode_row r' = Inr t" and "trip_id t = row_id r'"
    using decode_written by blast
  ultimately show "\<exists>t. get_itinerary (run reqs) i = Inr t \<and> trip_id t = i"
    using i by (auto simp: get_itinerary_def)
qed

text \<open>An instance: the table of the scenario, asked for \<^verbatim>\<open>id-2\<close> and for \<^verbatim>\<open>id-1\<close>.\<close>

theorem get_by_id_witness:
  "''id-2'' \<notin> set (map row_id (run [Create ''id-1'' 7 tokyo])) \<and>
   get_itinerary (run [Create ''id-1'' 7 tokyo]) ''id-2'' = Inl NotFound \<and>
   ''id-1'' \<in> set (map row_id (run [Create ''id-1'' 7 tokyo])) \<and>
   distinct (map row_id (run [Create ''id-1'' 7 tokyo])) \<and>
   get_itinerary (run [Create ''id-1'' 7 tokyo]) ''id-1'' =
     Inr \<lparr>trip_id = ''id-1'', trip_title = Some ''Viaggio a Tokyo'',
          trip_destination = Some ''Tokyo'', trip_duration = Some 5,
          trip_budget = Some ''medio'', trip_type = Some ''cultural'',
          trip_interests = JArr [JStr ''Arte''], trip_activities = JArr [JStr ''Musei''],
          trip_content = Some ''# Day 1'', trip_created_at = 7\<rparr>"
proof -
  let ?db = "run [Create ''id-1'' 7 tokyo]"
  let ?r = "hd ?db"
  have absent: "''id-2'' \<notin> set (map row_id ?db)" and present: "''id-1'' \<in> set (map row_id ?db)"
    and d: "distinct (map row_id ?db)" and r: "?r \<in> set ?db" and i: "row_id ?r = ''id-1''"
    by (simp_all add: run_one)
  have a: "JSON_parse (column_text (row_interests ?r)) = Some (JArr [JStr ''Arte''])"
    and c: "JSON_parse (column_text (row_activities ?r)) = Some (JArr [JStr ''Musei''])"
    using JSON_parse_column[of "Some (JArr [JStr ''Arte''])"]
      JSON_parse_column[of "Some (JArr [JStr ''Musei''])"]
    by (simp_all add: run_one as_json_def)
  from get_by_id[of "''id-2''" ?db ?r "JArr [JStr ''Arte'']" "JArr [JStr ''Musei'']" "[]"] absent
  have 1: "get_itinerary ?db ''id-2'' = Inl NotFound"
    by blast
  from get_by_id[of "''id-1''" ?db ?r "JArr [JStr ''Arte'']" "JArr [JStr ''Musei'']" "[]"]
    d r i a c
  have 2: "get_itinerary ?db ''id-1'' =
     Inr \<lparr>trip_id = ''id-1'', trip_title = row_title ?r, trip_destination = row_destination ?r,
          trip_duration = row_duration ?r, trip_budget = row_budget ?r,
          trip_type = row_type ?r, trip_interests = JArr [JStr ''Arte''],
          trip_activities = JArr [JStr ''Musei''],
          trip_content = row_content ?r, trip_created_at = row_created_at ?r\<rparr>"
    by blast
  have 3: "row_title ?r = Some ''Viaggio a Tokyo''" "row_destination ?r = Some ''Tokyo''"
    "row_duration ?r = Some 5" "row_budget ?r = Some ''medio''" "row_type ?r = Some ''cultural''"
    "row_content ?r = Some ''# Day 1''" "row_created_at ?r = 7"
    by (simp_all add: run_one)
  from absent present d 1 2 show ?thesis
    unfolding 3 by blast
qed





end
